theory Spec2Isabelle
  imports Complex_Main "HOL-Library.Multiset" "HOL-Library.Char_ord" "HOL-Library.List_Lexorder"
begin

unbundle bit_operations_syntax

section \<open>Errors\<close>

text \<open>
  The Python exceptions the modelled code raises. A function that can raise returns
  \<open>error + 'a\<close>, with \<open>Inl\<close> for the exception. \<open>AssertionError_tuple\<close> is the
  AssertionError of an \<open>assert\<close> whose message expression is a tuple of strings.
\<close>

datatype error =
    AssertionError string
  | AssertionError_tuple "string list"
  | ValueError string
  | IndexError string
  | KeyError string
  | AttributeError string
  | UnboundLocalError string
  | OverflowError string
  | ZeroDivisionError

section \<open>Arrays (the numpy operations of init_parallel_groups)\<close>

text \<open>
  A three-dimensional array is its shape and its elements in row-major (C) order, which is
  how \<open>np.arange(...).reshape(...)\<close> lays them out. \<open>item3 a i j k\<close> is \<open>a[i, j, k]\<close>.
\<close>

record ndarray3 =
  shape3 :: "nat \<times> nat \<times> nat"
  flat3 :: "nat list"

definition arange :: "nat \<Rightarrow> nat list" where
  "arange n = [0..<n]"

definition item3 :: "ndarray3 \<Rightarrow> nat \<Rightarrow> nat \<Rightarrow> nat \<Rightarrow> nat" where
  "item3 a i j k = (case shape3 a of (d0, d1, d2) \<Rightarrow> flat3 a ! ((i * d1 + j) * d2 + k))"

text \<open>\<open>reshape\<close> raises ValueError when the new shape does not hold the same number of elements.\<close>

definition reshape3 :: "nat list \<Rightarrow> nat \<times> nat \<times> nat \<Rightarrow> error + ndarray3" where
  "reshape3 xs shp =
     (case shp of (d0, d1, d2) \<Rightarrow>
        if d0 * d1 * d2 \<noteq> length xs then Inl (ValueError ''cannot reshape array'')
        else Inr \<lparr>shape3 = shp, flat3 = xs\<rparr>)"

text \<open>
  \<open>a.transpose((0, 2, 1))\<close> and \<open>a.transpose((2, 1, 0))\<close>: the result's element at
  \<open>[i, j, k]\<close> is \<open>a[i, k, j]\<close>, respectively \<open>a[k, j, i]\<close>.
\<close>

definition transpose_021 :: "ndarray3 \<Rightarrow> ndarray3" where
  "transpose_021 a =
     (case shape3 a of (d0, d1, d2) \<Rightarrow>
        \<lparr>shape3 = (d0, d2, d1),
         flat3 = concat (map (\<lambda>i. concat (map (\<lambda>j. map (\<lambda>k. item3 a i k j) [0..<d1]) [0..<d2]))
                          [0..<d0])\<rparr>)"

definition transpose_210 :: "ndarray3 \<Rightarrow> ndarray3" where
  "transpose_210 a =
     (case shape3 a of (d0, d1, d2) \<Rightarrow>
        \<lparr>shape3 = (d2, d1, d0),
         flat3 = concat (map (\<lambda>i. concat (map (\<lambda>j. map (\<lambda>k. item3 a k j i) [0..<d0]) [0..<d1]))
                          [0..<d2])\<rparr>)"

text \<open>
  \<open>a.reshape((r, c))\<close> of a three-dimensional array, as the list of its rows (what
  iterating over the two-dimensional result yields).
\<close>

definition reshape2 :: "ndarray3 \<Rightarrow> nat \<times> nat \<Rightarrow> error + nat list list" where
  "reshape2 a shp =
     (case shp of (r, c) \<Rightarrow>
        if r * c \<noteq> length (flat3 a) then Inl (ValueError ''cannot reshape array'')
        else Inr (map (\<lambda>i. map (\<lambda>k. flat3 a ! (i * c + k)) [0..<c]) [0..<r]))"

text \<open>\<open>a[:, j, :].reshape(-1)\<close>\<close>

definition slice_axis1 :: "ndarray3 \<Rightarrow> nat \<Rightarrow> nat list" where
  "slice_axis1 a j =
     (case shape3 a of (d0, d1, d2) \<Rightarrow>
        concat (map (\<lambda>i. map (\<lambda>k. item3 a i j k) [0..<d2]) [0..<d0]))"

section \<open>The process-group runtime (torch.distributed)\<close>

text \<open>
  The runtime is state passed explicitly: whether the package is available, whether the
  default process group is initialised, the member ranks of every group created by
  \<open>new_group\<close> (a group's handle is its position in that list), and the trace of the other
  collective calls. A barrier or destroy on the default group carries \<open>None\<close>.
\<close>

datatype event =
    SetDevice nat
  | InitProcessGroup nat nat
  | Barrier "nat option"
  | DestroyProcessGroup "nat option"

record dist_state =
  available :: bool
  initialized :: bool
  groups :: "nat list list"
  trace :: "event list"

definition new_group :: "nat list \<Rightarrow> dist_state \<Rightarrow> nat \<times> dist_state" where
  "new_group ranks s = (length (groups s), s\<lparr>groups := groups s @ [ranks]\<rparr>)"

definition barrier :: "nat option \<Rightarrow> dist_state \<Rightarrow> dist_state" where
  "barrier g s = s\<lparr>trace := trace s @ [Barrier g]\<rparr>"

definition destroy_process_group :: "nat option \<Rightarrow> dist_state \<Rightarrow> dist_state" where
  "destroy_process_group g s = s\<lparr>trace := trace s @ [DestroyProcessGroup g]\<rparr>"

definition init_process_group :: "nat \<Rightarrow> nat \<Rightarrow> dist_state \<Rightarrow> dist_state" where
  "init_process_group rank world_size s =
     s\<lparr>initialized := True, trace := trace s @ [InitProcessGroup rank world_size]\<rparr>"

text \<open>The environment variables the constructor reads.\<close>

record environ =
  RANK :: nat
  WORLD_SIZE :: nat
  LOCAL_RANK :: nat

section \<open>ParallelContext (src/nanotron/distributed/parallel_context.py)\<close>

datatype ParallelMode = GLOBAL | TENSOR | PIPELINE | DATA

text \<open>
  The object's attributes. \<open>_groups\<close> is a dict, kept as an association list in insertion
  order (\<open>destroy\<close> iterates over it); \<open>world_ranks_to_pg\<close> is the dict from sorted rank
  tuple to group. An attribute that has not been assigned is \<open>None\<close>.
\<close>

record ParallelContext =
  tensor_parallel_size :: int
  pipeline_parallel_size :: int
  data_parallel_size :: int
  private_groups :: "(ParallelMode \<times> nat) list"
  world_pg :: "nat option"
  tp_pg :: "nat option"
  dp_pg :: "nat option"
  pp_pg :: "nat option"
  world_rank_matrix :: "ndarray3 option"
  world_ranks_to_pg :: "(nat list \<times> nat) list"

definition set_device :: "environ \<Rightarrow> dist_state \<Rightarrow> dist_state" where
  "set_device env s = s\<lparr>trace := trace s @ [SetDevice (LOCAL_RANK env)]\<rparr>"

text \<open>
  \<open>init_global_dist\<close>: only the nccl backend is accepted; then the default group is
  initialised and the group of all ranks is created and stored as \<open>world_pg\<close>.
\<close>

definition init_global_dist ::
  "ParallelContext \<Rightarrow> nat \<Rightarrow> nat \<Rightarrow> string \<Rightarrow> dist_state \<Rightarrow> (error + ParallelContext) \<times> dist_state" where
  "init_global_dist self rank world_size backend s =
     (if backend \<noteq> ''nccl'' then
        (Inl (AssertionError ''Only nccl backend is supported for now.''), s)
      else
        let s1 = init_process_group rank world_size s;
            ranks = [0..<world_size];
            (process_group, s2) = new_group ranks s1
        in (Inr (self\<lparr>world_pg := Some process_group\<rparr>), s2))"

text \<open>
  The body that \<open>init_parallel_groups\<close> repeats for each row of ranks of an axis: the group
  is looked up under its sorted rank tuple, created and registered when absent, reused
  otherwise.
\<close>

definition get_or_create_group ::
  "nat list \<Rightarrow> (nat list \<times> nat) list \<times> dist_state \<Rightarrow> nat \<times> (nat list \<times> nat) list \<times> dist_state" where
  "get_or_create_group ranks st =
     (case st of (reg, s) \<Rightarrow>
        let sorted_ranks = sort ranks in
        (case map_of reg sorted_ranks of
           None \<Rightarrow>
             (let (new_grp, s') = new_group ranks s
              in (new_grp, reg @ [(sorted_ranks, new_grp)], s'))
         | Some new_grp \<Rightarrow> (new_grp, reg, s)))"

text \<open>One iteration of an axis loop, with \<open>if rank in ranks: pg = new_group\<close>.\<close>

definition axis_step ::
  "nat \<Rightarrow> nat list \<Rightarrow> (nat list \<times> nat) list \<times> dist_state \<times> nat option
     \<Rightarrow> (nat list \<times> nat) list \<times> dist_state \<times> nat option" where
  "axis_step rank ranks st =
     (case st of (reg, s, pg) \<Rightarrow>
        (case get_or_create_group ranks (reg, s) of
           (new_grp, reg', s') \<Rightarrow>
             (reg', s', if rank \<in> set ranks then Some new_grp else pg)))"

definition axis_loop ::
  "nat \<Rightarrow> nat list list \<Rightarrow> (nat list \<times> nat) list \<times> dist_state
     \<Rightarrow> (nat list \<times> nat) list \<times> dist_state \<times> nat option" where
  "axis_loop rank rows st =
     (case st of (reg, s) \<Rightarrow> fold (axis_step rank) rows (reg, s, None))"

text \<open>The model-parallel loop creates and registers groups without keeping one.\<close>

definition model_step ::
  "nat list \<Rightarrow> (nat list \<times> nat) list \<times> dist_state \<Rightarrow> (nat list \<times> nat) list \<times> dist_state" where
  "model_step ranks st = snd (get_or_create_group ranks st)"

text \<open>
  A step that may raise, inside a function that threads the runtime state: the exception
  leaves with the state reached so far, a value goes on to the rest of the function.
\<close>

definition raising ::
  "error + 'a \<Rightarrow> 's \<Rightarrow> ('a \<Rightarrow> (error + 'b) \<times> 's) \<Rightarrow> (error + 'b) \<times> 's" where
  "raising r s k = (case r of Inl e \<Rightarrow> (Inl e, s) | Inr x \<Rightarrow> k x)"

text \<open>
  \<open>init_parallel_groups\<close>. The sizes are Python integers; numpy rejects a shape with two
  negative entries, and a validated configuration with a negative size has exactly two. A
  local variable \<open>tp_pg\<close>, \<open>dp_pg\<close> or \<open>pp_pg\<close> that no iteration has assigned makes the final
  assignments raise UnboundLocalError.
\<close>

definition init_parallel_groups ::
  "ParallelContext \<Rightarrow> environ \<Rightarrow> dist_state \<Rightarrow> (error + ParallelContext) \<times> dist_state" where
  "init_parallel_groups self env s =
     (case world_pg self of
        None \<Rightarrow> (Inl (AttributeError ''world_pg''), s)
      | Some w \<Rightarrow>
     let s0 = barrier (Some w) s;
         rank = RANK env;
         world_size = WORLD_SIZE env
     in
     if pipeline_parallel_size self < 0 \<or> data_parallel_size self < 0
          \<or> tensor_parallel_size self < 0
     then (Inl (ValueError ''negative dimensions not allowed''), s0)
     else
     let pp = nat (pipeline_parallel_size self);
         dp = nat (data_parallel_size self);
         tp = nat (tensor_parallel_size self)
     in
     raising (reshape3 (arange world_size) (pp, dp, tp)) s0 (\<lambda>ranks.
     raising (reshape2 ranks (pp * dp, tp)) s0 (\<lambda>ranks_with_tp_last.
     case axis_loop rank ranks_with_tp_last ([], s0) of (reg1, s1, tp_pg') \<Rightarrow>
     raising (reshape2 (transpose_021 ranks) (pp * tp, dp)) s1 (\<lambda>ranks_with_dp_last.
     case axis_loop rank ranks_with_dp_last (reg1, s1) of (reg2, s2, dp_pg') \<Rightarrow>
     raising (reshape2 (transpose_210 ranks) (tp * dp, pp)) s2 (\<lambda>ranks_with_pp_last.
     case axis_loop rank ranks_with_pp_last (reg2, s2) of (reg3, s3, pp_pg') \<Rightarrow>
     case fold model_step (map (slice_axis1 ranks) [0..<dp]) (reg3, s3) of (reg4, s4) \<Rightarrow>
     (case (tp_pg', dp_pg', pp_pg') of
        (Some t, Some d, Some p) \<Rightarrow>
          (Inr (self\<lparr>tp_pg := Some t, dp_pg := Some d, pp_pg := Some p,
                     world_rank_matrix := Some ranks, world_ranks_to_pg := reg4\<rparr>),
           barrier None s4)
      | _ \<Rightarrow> (Inl (UnboundLocalError ''local variable referenced before assignment''), s4)
     ))))))"

text \<open>
  \<open>__init__\<close>. Python's \<open>%\<close> on integers takes the sign of the divisor, as \<open>mod\<close> on \<open>int\<close>
  does, and raises ZeroDivisionError for a zero divisor. The checks come first; nothing of
  the runtime has been touched when one of them fails.
\<close>

definition ParallelContext_init ::
  "int \<Rightarrow> int \<Rightarrow> int \<Rightarrow> string \<Rightarrow> environ \<Rightarrow> dist_state \<Rightarrow> (error + ParallelContext) \<times> dist_state" where
  "ParallelContext_init tensor_parallel_size' pipeline_parallel_size' data_parallel_size' backend env s =
     (let num_gpus_per_model = tensor_parallel_size' * pipeline_parallel_size';
          world_size = int (WORLD_SIZE env)
      in
      if data_parallel_size' = 0 then (Inl ZeroDivisionError, s)
      else if world_size mod data_parallel_size' \<noteq> 0 then
        (Inl (AssertionError
           ''The total number of processes must be divisible by the data parallel size.''), s)
      else if num_gpus_per_model = 0 then (Inl ZeroDivisionError, s)
      else if world_size mod num_gpus_per_model \<noteq> 0 then
        (Inl (AssertionError
           ''The total number of processes must be divisible bythe number of GPUs per model (tensor_parallel_size * pipeline_parallel_size).''), s)
      else if num_gpus_per_model * data_parallel_size' \<noteq> world_size then
        (Inl (AssertionError_tuple
           [''The number of process requires to train all replicas'',
            ''must be equal to the world size.'']), s)
      else if \<not> available s then
        (Inl (ValueError
           ''`torch.distributed is not available as a package, please install it.''), s)
      else
        let self = \<lparr>tensor_parallel_size = tensor_parallel_size',
                    pipeline_parallel_size = pipeline_parallel_size',
                    data_parallel_size = data_parallel_size',
                    private_groups = [], world_pg = None, tp_pg = None, dp_pg = None,
                    pp_pg = None, world_rank_matrix = None, world_ranks_to_pg = []\<rparr>;
            s1 = set_device env s
        in
        (case (if \<not> initialized s1
               then init_global_dist self (RANK env) (WORLD_SIZE env) backend s1
               else (Inr self, s1)) of
           (Inl e, s2) \<Rightarrow> (Inl e, s2)
         | (Inr self2, s2) \<Rightarrow>
             (case init_parallel_groups self2 env s2 of
                (Inl e, s3) \<Rightarrow> (Inl e, s3)
              | (Inr self3, s3) \<Rightarrow> (Inr self3, barrier None s3))))"

text \<open>\<open>is_initialized\<close>, \<open>add_group\<close> and \<open>get_group\<close> read and write the dict \<open>_groups\<close>.\<close>

definition is_initialized :: "ParallelContext \<Rightarrow> ParallelMode \<Rightarrow> bool" where
  "is_initialized self parallel_mode = (map_of (private_groups self) parallel_mode \<noteq> None)"

definition add_group :: "ParallelContext \<Rightarrow> ParallelMode \<Rightarrow> nat \<Rightarrow> ParallelContext" where
  "add_group self parallel_mode grp =
     self\<lparr>private_groups :=
       (if map_of (private_groups self) parallel_mode = None
        then private_groups self @ [(parallel_mode, grp)]
        else map (\<lambda>(m, g). if m = parallel_mode then (m, grp) else (m, g)) (private_groups self))\<rparr>"

definition get_group :: "ParallelContext \<Rightarrow> ParallelMode \<Rightarrow> error + nat" where
  "get_group self parallel_mode =
     (case map_of (private_groups self) parallel_mode of
        None \<Rightarrow> Inl (KeyError ''parallel_mode'')
      | Some g \<Rightarrow> Inr g)"

text \<open>
  \<open>get_global_rank_from_local_rank\<close> looks the group of the mode up in \<open>_groups\<close>
  (KeyError when the mode is not registered) and asks the runtime for the global rank;
  \<open>dist.get_global_rank\<close> is a parameter.
\<close>

definition get_global_rank_from_local_rank ::
  "(nat \<Rightarrow> int \<Rightarrow> error + int) \<Rightarrow> ParallelContext \<Rightarrow> int \<Rightarrow> ParallelMode \<Rightarrow> error + int" where
  "get_global_rank_from_local_rank dist_get_global_rank self local_rank parallel_mode =
     (case get_group self parallel_mode of
        Inl e \<Rightarrow> Inl e
      | Inr process_group \<Rightarrow> dist_get_global_rank process_group local_rank)"

text \<open>
  \<open>get_3d_ranks\<close>: the global rank from \<open>get_global_rank_from_local_rank\<close>, the three
  world sizes from \<open>get_world_size\<close>, then the arithmetic; \<open>//\<close> and \<open>%\<close> raise
  ZeroDivisionError for a zero divisor. The method \<open>get_world_size\<close> is not defined by the
  class as it stands (its definition is commented out), so that the call raises
  AttributeError, which is \<open>get_world_size_missing\<close>; it is a parameter here and of
  \<open>destroy\<close>, so that what is proved of them holds whatever it returns.
\<close>

definition get_world_size_missing :: "ParallelMode \<Rightarrow> error + int" where
  "get_world_size_missing parallel_mode =
     Inl (AttributeError ''ParallelContext object has no attribute get_world_size'')"

definition get_3d_ranks ::
  "(ParallelMode \<Rightarrow> error + int) \<Rightarrow> (nat \<Rightarrow> int \<Rightarrow> error + int) \<Rightarrow> ParallelContext \<Rightarrow> int
     \<Rightarrow> ParallelMode \<Rightarrow> error + (int \<times> int \<times> int)" where
  "get_3d_ranks get_world_size dist_get_global_rank self local_rank parallel_mode =
     (case get_global_rank_from_local_rank dist_get_global_rank self local_rank parallel_mode of
        Inl e \<Rightarrow> Inl e
      | Inr rank \<Rightarrow>
     (case get_world_size TENSOR of
        Inl e \<Rightarrow> Inl e
      | Inr tp_world_size \<Rightarrow>
     (case get_world_size DATA of
        Inl e \<Rightarrow> Inl e
      | Inr dp_world_size \<Rightarrow>
     (case get_world_size PIPELINE of
        Inl e \<Rightarrow> Inl e
      | Inr pp_world_size \<Rightarrow>
          if tp_world_size * dp_world_size = 0 \<or> pp_world_size = 0 then Inl ZeroDivisionError
          else
            let pp_rank = (rank div (tp_world_size * dp_world_size)) mod pp_world_size;
                dp_rank = (rank div tp_world_size) mod dp_world_size;
                tp_rank = rank mod tp_world_size
            in Inr (pp_rank, dp_rank, tp_rank)))))"

text \<open>
  \<open>destroy\<close>. The method \<open>get_world_size\<close> it calls is not defined by the class as it
  stands (its definition is commented out); it is taken as a parameter, so that what is
  proved holds whatever it returns.
\<close>

fun destroy_loop ::
  "(ParallelMode \<Rightarrow> error + int) \<Rightarrow> ParallelContext \<Rightarrow> (ParallelMode \<times> nat) list \<Rightarrow> dist_state
     \<Rightarrow> (error + unit) \<times> dist_state" where
  "destroy_loop get_world_size self [] s = (Inr (), s)"
| "destroy_loop get_world_size self ((mode, grp) # rest) s =
     (if mode \<noteq> GLOBAL then
        (if is_initialized self mode then
           (case get_world_size mode of
              Inl e \<Rightarrow> (Inl e, s)
            | Inr n \<Rightarrow>
                if n > 1 then
                  (case get_group self mode of
                     Inl e \<Rightarrow> (Inl e, s)
                   | Inr g \<Rightarrow>
                       destroy_loop get_world_size self rest
                         (destroy_process_group (Some g) (barrier (Some g) s)))
                else destroy_loop get_world_size self rest s)
         else destroy_loop get_world_size self rest s)
      else destroy_loop get_world_size self rest s)"

definition destroy ::
  "(ParallelMode \<Rightarrow> error + int) \<Rightarrow> ParallelContext \<Rightarrow> dist_state
     \<Rightarrow> (error + ParallelContext) \<times> dist_state" where
  "destroy get_world_size self s =
     (if \<not> is_initialized self GLOBAL then
        (Inl (AssertionError ''Global group must be initialized before destroying.''), s)
      else
        (case destroy_loop get_world_size self (private_groups self) s of
           (Inl e, s') \<Rightarrow> (Inl e, s')
         | (Inr u, s') \<Rightarrow>
             (Inr (self\<lparr>private_groups := []\<rparr>),
              destroy_process_group None (barrier None s'))))"

text \<open>
  The errors of the three size checks at the head of \<open>__init__\<close>: one of the three
  assertions, or the ZeroDivisionError of a \<open>%\<close> by zero. The message of the second
  assertion is the concatenation of two adjacent string literals (with no space between
  \<open>by\<close> and \<open>the\<close>); the message of the third is a tuple of two strings.
\<close>

definition size_check_error :: "error + 'a \<Rightarrow> bool" where
  "size_check_error r =
     (r = Inl ZeroDivisionError
      \<or> r = Inl (AssertionError
           ''The total number of processes must be divisible by the data parallel size.'')
      \<or> r = Inl (AssertionError
           ''The total number of processes must be divisible bythe number of GPUs per model (tensor_parallel_size * pipeline_parallel_size).'')
      \<or> r = Inl (AssertionError_tuple
           [''The number of process requires to train all replicas'',
            ''must be equal to the world size.'']))"

text \<open>A property of the value of an outcome that did not raise.\<close>

definition returns :: "('a \<Rightarrow> bool) \<Rightarrow> (error + 'a) \<times> 's \<Rightarrow> bool" where
  "returns P r = (case fst r of Inl e \<Rightarrow> True | Inr x \<Rightarrow> P x)"

text \<open>
  The invariant of the registry \<open>world_ranks_to_pg\<close> during group construction, where
  \<open>base\<close> groups existed before the registry was started: no sorted rank tuple is
  registered twice, no group is registered under two tuples, every group created since
  is registered, and each registered group is one the runtime holds, whose sorted
  members are the tuple it is registered under.
\<close>

definition registry_inv :: "nat \<Rightarrow> (nat list \<times> nat) list \<Rightarrow> dist_state \<Rightarrow> bool" where
  "registry_inv base reg s =
     (distinct (map fst reg) \<and> distinct (map snd reg)
      \<and> length (groups s) = base + length reg
      \<and> list_all (\<lambda>(k, g). base \<le> g \<and> g < length (groups s) \<and> sort (groups s ! g) = k) reg)"

text \<open>Handle \<open>g\<close> is a group of the runtime with the same members as \<open>ranks\<close>.\<close>

definition group_of :: "dist_state \<Rightarrow> nat list \<Rightarrow> nat \<Rightarrow> bool" where
  "group_of s ranks g = (g < length (groups s) \<and> sort (groups s ! g) = sort ranks)"

text \<open>
  The coordinates of a rank in the array of shape \<open>(pp, dp, tp)\<close>, on natural numbers: the
  arithmetic of \<open>get_3d_ranks\<close>.
\<close>

definition coordinate :: "nat \<Rightarrow> nat \<Rightarrow> nat \<Rightarrow> nat \<Rightarrow> nat \<times> nat \<times> nat" where
  "coordinate tp dp pp rank = ((rank div (tp * dp)) mod pp, (rank div tp) mod dp, rank mod tp)"

section \<open>OptimizerFromGradientAccumulator (core/optimizer/optimizer_from_gradient_accumulator.py)\<close>

text \<open>
  A state dict is a Python dict with string keys. The wrapped base optimizer (reached
  through \<open>super()\<close>, class InheritFromOtherOptimizer) and the GradientAccumulator are
  collaborators whose code is not part of the modelled files: their \<open>state_dict\<close> and
  \<open>load_state_dict\<close> are taken as parameters, collected in a record. Either load may raise.
\<close>

type_synonym 'v state_dict = "string \<rightharpoonup> 'v"

record ('b, 'a, 'v) collaborators =
  base_state_dict :: "'b \<Rightarrow> 'v state_dict"
  base_load_state_dict :: "'b \<Rightarrow> 'v state_dict \<Rightarrow> error + 'b"
  accumulator_state_dict :: "'a \<Rightarrow> 'v"
  accumulator_load_state_dict :: "'a \<Rightarrow> 'v \<Rightarrow> error + 'a"

record ('b, 'a) OptimizerFromGradientAccumulator =
  optimizer :: 'b
  gradient_accumulator :: 'a

text \<open>
  \<open>state_dict = super().state_dict(); assert "gradient_accumulator" not in state_dict;
  state_dict["gradient_accumulator"] = self.gradient_accumulator.state_dict()\<close>
\<close>

definition state_dict ::
  "('b, 'a, 'v) collaborators \<Rightarrow> ('b, 'a) OptimizerFromGradientAccumulator \<Rightarrow> error + 'v state_dict" where
  "state_dict c self =
     (let sd = base_state_dict c (optimizer self) in
      if ''gradient_accumulator'' \<in> dom sd then Inl (AssertionError [])
      else Inr (sd(''gradient_accumulator'' \<mapsto> accumulator_state_dict c (gradient_accumulator self))))"

text \<open>
  \<open>state_dict.pop("gradient_accumulator")\<close> raises KeyError when the key is absent and
  removes it otherwise; the base optimizer is loaded first, then the accumulator. An
  exception of either load propagates.
\<close>

definition load_state_dict ::
  "('b, 'a, 'v) collaborators \<Rightarrow> ('b, 'a) OptimizerFromGradientAccumulator \<Rightarrow> 'v state_dict
     \<Rightarrow> error + ('b, 'a) OptimizerFromGradientAccumulator" where
  "load_state_dict c self sd =
     (case sd ''gradient_accumulator'' of
        None \<Rightarrow> Inl (KeyError ''gradient_accumulator'')
      | Some gradient_accumulator_state_dict \<Rightarrow>
          (case base_load_state_dict c (optimizer self) (sd(''gradient_accumulator'' := None)) of
             Inl e \<Rightarrow> Inl e
           | Inr b \<Rightarrow>
               (case accumulator_load_state_dict c (gradient_accumulator self)
                       gradient_accumulator_state_dict of
                  Inl e \<Rightarrow> Inl e
                | Inr a \<Rightarrow> Inr \<lparr>optimizer = b, gradient_accumulator = a\<rparr>)))"

section \<open>get_all_comps (src/nanotron/helpers.py)\<close>

text \<open>
  The array \<open>x\<close> is a list of ranks. \<open>lst.reshape(-1, d)\<close> of a contiguous
  one-dimensional array is a view of the same memory, so the assignment to
  \<open>lst[1::2]\<close> inside \<open>op\<close> changes \<open>x\<close> itself: \<open>op\<close> returns its result together with the
  new contents of \<open>x\<close>, and the loop passes them on.
\<close>

text \<open>\<open>reshape(-1, d)\<close>, as the list of rows; ValueError when the size is not a multiple of \<open>d\<close>.\<close>

definition reshape_rows :: "nat \<Rightarrow> nat list \<Rightarrow> error + nat list list" where
  "reshape_rows d lst =
     (if d = 0 \<or> length lst mod d \<noteq> 0 then Inl (ValueError ''cannot reshape array'')
      else Inr (map (\<lambda>i. take d (drop (i * d) lst)) [0..<length lst div d]))"

text \<open>\<open>np.roll(row, r)\<close>: the element at position \<open>j\<close> moves to position \<open>(j + r) mod len\<close>.\<close>

definition roll :: "nat \<Rightarrow> nat list \<Rightarrow> nat list" where
  "roll r row =
     (let k = r mod length row
      in drop (length row - k) row @ take (length row - k) row)"

text \<open>\<open>lst[1::2] = np.roll(lst[1::2], r, axis=1)\<close>: every second row, from the second on, is rolled.\<close>

fun roll_odd_rows :: "nat \<Rightarrow> nat list list \<Rightarrow> nat list list" where
  "roll_odd_rows r [] = []"
| "roll_odd_rows r [a] = [a]"
| "roll_odd_rows r (a # b # rest) = a # roll r b # roll_odd_rows r rest"

text \<open>\<open>lst.T.reshape(-1)\<close> of rows of length \<open>d\<close>: the elements column by column.\<close>

definition flatten_T :: "nat \<Rightarrow> nat list list \<Rightarrow> nat list" where
  "flatten_T d rows = concat (map (\<lambda>j. map (\<lambda>i. rows ! i ! j) [0..<length rows]) [0..<d])"

definition op :: "nat list \<Rightarrow> nat \<Rightarrow> nat \<Rightarrow> error + (nat list \<times> nat list)" where
  "op x d r =
     (case reshape_rows d x of
        Inl e \<Rightarrow> Inl e
      | Inr lst \<Rightarrow> (let lst' = roll_odd_rows r lst in Inr (flatten_T d lst', concat lst')))"

text \<open>\<open>for r in range(d): comps.append(op(x, d=d, r=r).copy())\<close>\<close>

fun comps_for ::
  "nat \<Rightarrow> nat list \<Rightarrow> nat list \<Rightarrow> nat list list \<Rightarrow> error + (nat list \<times> nat list list)" where
  "comps_for d [] x comps = Inr (x, comps)"
| "comps_for d (r # rs) x comps =
     (case op x d r of
        Inl e \<Rightarrow> Inl e
      | Inr (res, x') \<Rightarrow> comps_for d rs x' (comps @ [res]))"

text \<open>
  \<open>while d < n: ...; d *= 2\<close>. The loop does not end for \<open>d = 0\<close>, so it is a partial
  function: not returning is \<open>None\<close>.
\<close>

partial_function (option) comps_while ::
  "nat \<Rightarrow> nat \<Rightarrow> nat list \<Rightarrow> nat list list \<Rightarrow> (error + nat list list) option" where
  "comps_while n d x comps =
     (if d < n then
        (case comps_for d [0..<d] x comps of
           Inl e \<Rightarrow> Some (Inl e)
         | Inr (x', comps') \<Rightarrow> comps_while n (d * 2) x' comps')
      else Some (Inr comps))"

declare comps_while.simps [code]

text \<open>\<open>ret.reshape(ret.shape[0], -1, 2)\<close> of one row of \<open>ret\<close>: consecutive pairs.\<close>

definition pairs :: "nat list \<Rightarrow> nat list list" where
  "pairs c = map (\<lambda>i. [c ! (2 * i), c ! (2 * i + 1)]) [0..<length c div 2]"

text \<open>
  \<open>n & (n - 1)\<close> is the bitwise and of Python integers (two's complement of unbounded
  width), which is \<open>AND\<close> on \<open>int\<close>. \<open>np.stack\<close> of an empty list raises ValueError, and the
  final reshape into pairs needs an even row length.
\<close>

definition get_all_comps :: "int \<Rightarrow> (error + nat list list list) option" where
  "get_all_comps n =
     (if \<not> ((n AND (n - 1)) = 0 \<and> n \<noteq> 0) then
        Some (Inl (ValueError ''n must be a power of two''))
      else
        (case comps_while (nat n) 1 [0..<nat n] [] of
           None \<Rightarrow> None
         | Some (Inl e) \<Rightarrow> Some (Inl e)
         | Some (Inr comps) \<Rightarrow>
             if comps = [] then Some (Inl (ValueError ''need at least one array to stack''))
             else if nat n mod 2 \<noteq> 0 then Some (Inl (ValueError ''cannot reshape array''))
             else Some (Inr (map pairs comps))))"

section \<open>SkipBatchSampler (examples/doremi/dataloader.py)\<close>

text \<open>
  The wrapped batch sampler is the list of batches it produces, in order. The constructor
  stores \<open>skip_batches // dp_size\<close>; Python's \<open>//\<close> on integers is floor division, which
  is \<open>div\<close> on \<open>int\<close>, and raises ZeroDivisionError for a zero divisor.
\<close>

record 'a SkipBatchSampler =
  batch_sampler :: "'a list"
  skip_batches :: int

definition SkipBatchSampler_init :: "'a list \<Rightarrow> int \<Rightarrow> int \<Rightarrow> error + 'a SkipBatchSampler" where
  "SkipBatchSampler_init bs skip dp_size =
     (if dp_size = 0 then Inl ZeroDivisionError
      else Inr \<lparr>batch_sampler = bs, skip_batches = skip div dp_size\<rparr>)"

text \<open>\<open>for index, samples in enumerate(self.batch_sampler): if index >= self.skip_batches: yield samples\<close>\<close>

definition SkipBatchSampler_iter :: "'a SkipBatchSampler \<Rightarrow> 'a list" where
  "SkipBatchSampler_iter s =
     map snd (filter (\<lambda>(index, samples). int index \<ge> skip_batches s)
                     (enumerate 0 (batch_sampler s)))"

definition SkipBatchSampler_len :: "'a SkipBatchSampler \<Rightarrow> int" where
  "SkipBatchSampler_len s = int (length (batch_sampler s)) - skip_batches s"

section \<open>CombinedDataset (examples/doremi/dataloader.py)\<close>

text \<open>\<open>np.cumsum\<close>: the running sums of a list.\<close>

fun cumsum_from :: "nat \<Rightarrow> nat list \<Rightarrow> nat list" where
  "cumsum_from acc [] = []"
| "cumsum_from acc (x # xs) = (acc + x) # cumsum_from (acc + x) xs"

definition cumsum :: "nat list \<Rightarrow> nat list" where
  "cumsum xs = cumsum_from 0 xs"







section \<open>DistributedSamplerForDoReMi (examples/doremi/dataloader.py)\<close>

text \<open>
  A domain weight is a floating-point number. The model keeps the rational number a
  finite float denotes and the two special values a division by a zero sum produces;
  rounding is outside the model, so \<open>domain_weights / domain_weights.sum()\<close> and the product
  with the partition size are exact here.
\<close>

datatype pyfloat = Finite rat | Infinity | NaN


definition times :: "nat \<Rightarrow> pyfloat \<Rightarrow> pyfloat" where
  "times k w =
     (case w of
        Finite q \<Rightarrow> Finite (of_nat k * q)
      | Infinity \<Rightarrow> (if k = 0 then NaN else Infinity)
      | NaN \<Rightarrow> NaN)"

text \<open>\<open>int(x)\<close> of a float truncates toward zero and raises for the special values.\<close>

definition py_int :: "pyfloat \<Rightarrow> error + int" where
  "py_int x =
     (case x of
        Finite q \<Rightarrow> Inr (if 0 \<le> q then \<lfloor>q\<rfloor> else \<lceil>q\<rceil>)
      | Infinity \<Rightarrow> Inl (OverflowError ''cannot convert float infinity to integer'')
      | NaN \<Rightarrow> Inl (ValueError ''cannot convert float NaN to integer''))"

text \<open>
  \<open>calculate_total_size\<close>: \<open>math.ceil(total_samples / batch_size) * batch_size\<close>.
\<close>

definition calculate_total_size :: "nat list \<Rightarrow> nat \<Rightarrow> error + nat" where
  "calculate_total_size lens batch_size =
     (if batch_size = 0 then Inl ZeroDivisionError
      else Inr ((sum_list lens + batch_size - 1) div batch_size * batch_size))"

text \<open>
  The random generator is a parameter: \<open>choice g a k\<close> is the outcome of
  \<open>np.random.choice(a, k, replace=False)\<close> in generator state \<open>g\<close>, with the next state.
  numpy raises ValueError for a negative sample size and for one larger than the population.
\<close>

definition random_choice ::
  "('g \<Rightarrow> nat \<Rightarrow> nat \<Rightarrow> nat list \<times> 'g) \<Rightarrow> 'g \<Rightarrow> nat \<Rightarrow> int \<Rightarrow> error + (nat list \<times> 'g)" where
  "random_choice choice g a num_samples =
     (if num_samples < 0 then Inl (ValueError ''negative dimensions are not allowed'')
      else if int a < num_samples then
        Inl (ValueError ''Cannot take a larger sample than population when replace=False'')
      else Inr (choice g a (nat num_samples)))"


text \<open>
  The loop of \<open>__iter__\<close> over \<open>enumerate(self.datasets)\<close>; a dataset enters through its
  length. \<open>domain_indices\<close> is the list built so far.
\<close>

fun domain_indices_loop ::
  "('g \<Rightarrow> nat \<Rightarrow> nat \<Rightarrow> nat list \<times> 'g) \<Rightarrow> nat \<Rightarrow> nat \<Rightarrow> pyfloat list \<Rightarrow> nat list
     \<Rightarrow> (nat \<times> nat) list \<Rightarrow> 'g \<Rightarrow> nat list \<Rightarrow> error + (nat list \<times> 'g)" where
  "domain_indices_loop choice num_replicas rank domain_weights offsets' [] g domain_indices =
     Inr (domain_indices, g)"
| "domain_indices_loop choice num_replicas rank domain_weights offsets' ((i, len) # rest) g
       domain_indices =
     (if num_replicas = 0 then Inl ZeroDivisionError
      else
        let dataset_partition_size = len div num_replicas;
            dataset_partition_offsets = rank * dataset_partition_size
        in
        if length domain_weights \<le> i then Inl (IndexError ''index out of range'')
        else
          (case py_int (times dataset_partition_size (domain_weights ! i)) of
             Inl e \<Rightarrow> Inl e
           | Inr num_samples \<Rightarrow>
               (case random_choice choice g dataset_partition_size num_samples of
                  Inl e \<Rightarrow> Inl e
                | Inr (picked, g') \<Rightarrow>
                    if length offsets' \<le> i then Inl (IndexError ''index out of range'')
                    else
                      let local_indices = map (\<lambda>j. j + dataset_partition_offsets) picked;
                          global_indices = map (\<lambda>j. j + offsets' ! i) local_indices
                      in domain_indices_loop choice num_replicas rank domain_weights offsets'
                           rest g' (domain_indices @ global_indices))))"

definition domain_indices_of ::
  "('g \<Rightarrow> nat \<Rightarrow> nat \<Rightarrow> nat list \<times> 'g) \<Rightarrow> nat \<Rightarrow> nat \<Rightarrow> pyfloat list \<Rightarrow> nat list \<Rightarrow> 'g
     \<Rightarrow> error + (nat list \<times> 'g)" where
  "domain_indices_of choice num_replicas rank domain_weights lens g =
     domain_indices_loop choice num_replicas rank domain_weights (cumsum (0 # butlast lens))
       (enumerate 0 lens) g []"

text \<open>
  \<open>__iter__\<close>: the indices of all domains are shuffled (\<open>shuffle\<close> is the outcome of
  \<open>np.random.shuffle\<close>), cut to \<open>total_size\<close> and yielded in batches of \<open>batch_size\<close>;
  \<open>range\<close> with a zero step raises ValueError.
\<close>

definition sampler_iter ::
  "('g \<Rightarrow> nat \<Rightarrow> nat \<Rightarrow> nat list \<times> 'g) \<Rightarrow> ('g \<Rightarrow> nat list \<Rightarrow> nat list \<times> 'g) \<Rightarrow> nat \<Rightarrow> nat
     \<Rightarrow> pyfloat list \<Rightarrow> nat list \<Rightarrow> nat \<Rightarrow> nat \<Rightarrow> 'g \<Rightarrow> error + (nat list list \<times> 'g)" where
  "sampler_iter choice shuffle num_replicas rank domain_weights lens batch_size total_size g =
     (case domain_indices_of choice num_replicas rank domain_weights lens g of
        Inl e \<Rightarrow> Inl e
      | Inr (domain_indices, g1) \<Rightarrow>
          (case shuffle g1 domain_indices of (shuffled, g2) \<Rightarrow>
             let domain_indices' = take total_size shuffled
             in if batch_size = 0 then Inl (ValueError ''range() arg 3 must not be zero'')
                else Inr (map (\<lambda>k. take batch_size (drop (k * batch_size) domain_indices'))
                            [0..<(length domain_indices' + batch_size - 1) div batch_size],
                          g2)))"


section \<open>sanity_check_dataloader (examples/doremi/dataloader.py)\<close>

text \<open>
  A field of a micro-batch holds a tensor or a TensorPointer (the placeholder, with the
  rank of the pipeline stage that holds the tensor). A batch is a dict with string keys,
  kept as an association list; moving a tensor to the device does not change its contents.
\<close>

datatype 'a field_value = Tensor 'a | TensorPointer nat

datatype process_group = DP_PG | TP_PG

text \<open>\<open>sub in key\<close> on strings.\<close>

definition contains :: "string \<Rightarrow> string \<Rightarrow> bool" where
  "contains sub s = list_ex (\<lambda>i. take (length sub) (drop i s) = sub) [0..<Suc (length s)]"

text \<open>
  The two functions of \<open>nanotron.core.utils\<close> that the check calls are not among the
  source files. They are parameters: \<open>assert_tensor_synced_across_pg pg msg tensor\<close> is the
  outcome of the call with that group, message builder and tensor, and
  \<open>assert_fail_except_rank_with rank_exception pg outcome\<close> is the outcome of the \<open>with\<close>
  statement (exception class AssertionError) whose body has the given outcome.
\<close>

record 'a utils =
  assert_tensor_synced_across_pg :: "process_group \<Rightarrow> (string \<Rightarrow> string) \<Rightarrow> 'a \<Rightarrow> error + unit"
  assert_fail_except_rank_with :: "nat \<Rightarrow> process_group \<Rightarrow> error + unit \<Rightarrow> error + unit"

text \<open>
  The first loop, under the comment "Check input are not the same across DP":
  placeholders and keys containing "mask" are skipped, the synchronisation assertion on
  the data-parallel group runs inside \<open>assert_fail_except_rank_with(AssertionError,
  rank_exception=0, pg=dpg.dp_pg)\<close>.
\<close>

fun dp_checks :: "'a utils \<Rightarrow> (string \<times> 'a field_value) list \<Rightarrow> error + unit" where
  "dp_checks u [] = Inr ()"
| "dp_checks u ((key, TensorPointer r) # rest) = dp_checks u rest"
| "dp_checks u ((key, Tensor t) # rest) =
     (if contains ''mask'' key then dp_checks u rest
      else
        (case assert_fail_except_rank_with u 0 DP_PG
                (assert_tensor_synced_across_pg u DP_PG (\<lambda>err. key @ '' '' @ err) t) of
           Inl e \<Rightarrow> Inl e
         | Inr _ \<Rightarrow> dp_checks u rest))"

text \<open>The second loop: the synchronisation assertion on the tensor-parallel group.\<close>

fun tp_checks :: "'a utils \<Rightarrow> (string \<times> 'a field_value) list \<Rightarrow> error + unit" where
  "tp_checks u [] = Inr ()"
| "tp_checks u ((key, TensorPointer r) # rest) = tp_checks u rest"
| "tp_checks u ((key, Tensor t) # rest) =
     (case assert_tensor_synced_across_pg u TP_PG
             (\<lambda>err. key @ '' are not synchronized throughout TP '' @ err) t of
        Inl e \<Rightarrow> Inl e
      | Inr _ \<Rightarrow> tp_checks u rest)"

text \<open>
  The body of the loop of \<open>sanity_check_dataloader\<close> for one batch: both loops run over
  \<open>sorted(micro_batch.items(), key=lambda x: x[0])\<close>, and the micro-batch is yielded when
  neither raises.
\<close>

definition check_micro_batch ::
  "'a utils \<Rightarrow> bool \<Rightarrow> (string \<times> 'a field_value) list \<Rightarrow> error + (string \<times> 'a field_value) list" where
  "check_micro_batch u ignore_sanity_checks batch =
     (let micro_batch = batch in
      if \<not> ignore_sanity_checks then
        (case dp_checks u (sort_key fst micro_batch) of
           Inl e \<Rightarrow> Inl e
         | Inr _ \<Rightarrow>
             (case tp_checks u (sort_key fst micro_batch) of
                Inl e \<Rightarrow> Inl e
              | Inr _ \<Rightarrow> Inr micro_batch))
      else Inr micro_batch)"

text \<open>
  The generator: the micro-batches yielded, and the exception that ended it, if any.
\<close>

fun sanity_check_dataloader ::
  "'a utils \<Rightarrow> bool \<Rightarrow> (string \<times> 'a field_value) list list
     \<Rightarrow> (string \<times> 'a field_value) list list \<times> error option" where
  "sanity_check_dataloader u ignore_sanity_checks [] = ([], None)"
| "sanity_check_dataloader u ignore_sanity_checks (batch # dataloader) =
     (case check_micro_batch u ignore_sanity_checks batch of
        Inl e \<Rightarrow> ([], Some e)
      | Inr micro_batch \<Rightarrow>
          (case sanity_check_dataloader u ignore_sanity_checks dataloader of
             (yielded, raised) \<Rightarrow> (micro_batch # yielded, raised)))"

text \<open>
  Modelled from the call site: \<open>assert_fail_except_rank_with\<close> and
  \<open>assert_tensor_synced_across_pg\<close> as their names, their arguments and the comments at their
  calls describe them. The context manager demands that its body raises the exception
  class on every rank of the group but \<open>rank_exception\<close>, and that it does not raise it
  there; \<open>get_rank\<close> is the rank of this process in a group. The assertion compares the
  tensor with the one the reference rank 0 of the group holds, which \<open>reference\<close> gives,
  and raises AssertionError with the message built by \<open>msg\<close>.
\<close>

definition assert_fail_except_rank_with_model ::
  "(process_group \<Rightarrow> nat) \<Rightarrow> nat \<Rightarrow> process_group \<Rightarrow> error + unit \<Rightarrow> error + unit" where
  "assert_fail_except_rank_with_model get_rank rank_exception pg body =
     (case body of
        Inl (AssertionError m) \<Rightarrow>
          if rank_exception = get_rank pg
          then Inl (AssertionError ''Expected rank to not raise AssertionError.'')
          else Inr ()
      | Inl e \<Rightarrow> Inl (AssertionError ''Expected AssertionError to be raised, but got another exception.'')
      | Inr _ \<Rightarrow>
          if get_rank pg \<noteq> rank_exception
          then Inl (AssertionError ''Expected AssertionError to be raised.'')
          else Inr ())"

definition assert_tensor_synced_across_pg_model ::
  "(process_group \<Rightarrow> nat) \<Rightarrow> (process_group \<Rightarrow> 'a \<Rightarrow> 'a) \<Rightarrow> process_group \<Rightarrow> (string \<Rightarrow> string) \<Rightarrow> 'a
     \<Rightarrow> error + unit" where
  "assert_tensor_synced_across_pg_model get_rank reference pg msg tensor =
     (let reference_tensor = (if get_rank pg = 0 then tensor else reference pg tensor)
      in if tensor = reference_tensor then Inr ()
         else Inl (AssertionError (msg ''Tensor-likes are not equal'')))"

definition utils_model :: "(process_group \<Rightarrow> nat) \<Rightarrow> (process_group \<Rightarrow> 'a \<Rightarrow> 'a) \<Rightarrow> 'a utils" where
  "utils_model get_rank reference =
     \<lparr>assert_tensor_synced_across_pg = assert_tensor_synced_across_pg_model get_rank reference,
      assert_fail_except_rank_with = assert_fail_except_rank_with_model get_rank\<rparr>"

text \<open>\<open>not isinstance(value, TensorPointer)\<close>\<close>

definition holds_tensor :: "string \<times> 'a field_value \<Rightarrow> bool" where
  "holds_tensor item = (case snd item of Tensor t \<Rightarrow> True | TensorPointer r \<Rightarrow> False)"

text \<open>
  Two views for the examples, both of the process with rank 1 in each group: one where
  every rank holds the same tensors, one where data-parallel rank 0 holds another tensor.
\<close>

definition rank_one :: "process_group \<Rightarrow> nat" where
  "rank_one pg = 1"

definition same_everywhere :: "process_group \<Rightarrow> nat list \<Rightarrow> nat list" where
  "same_everywhere pg t = t"

definition differs_on_dp :: "process_group \<Rightarrow> nat list \<Rightarrow> nat list" where
  "differs_on_dp pg t = (if pg = DP_PG then 0 # t else t)"

section \<open>Proofs: the arrays of ranks\<close>

lemma index_bound: "i < a \<Longrightarrow> j < b \<Longrightarrow> i * b + j < a * (b::nat)"
proof -
  assume i: "i < a" and j: "j < b"
  have "i * b + j < i * b + b" using j by simp
  also have "\<dots> = Suc i * b" by simp
  also have "\<dots> \<le> a * b" using i by (intro mult_le_mono1) simp
  finally show ?thesis .
qed

lemma length_concat_map_upt:
  "(\<And>i. i < n \<Longrightarrow> length (f i) = m) \<Longrightarrow> length (concat (map f [0..<n])) = n * m"
  by (induction n) simp_all

lemma nth_concat_map_upt:
  assumes "\<And>i. i < n \<Longrightarrow> length (f i) = m" "i < n" "j < m"
  shows "concat (map f [0..<n]) ! (i * m + j) = f i ! j"
  using assms
proof (induction n)
  case 0
  then show ?case by simp
next
  case (Suc n)
  have len: "length (concat (map f [0..<n])) = n * m"
    using Suc.prems(1) by (intro length_concat_map_upt) simp
  show ?case
  proof (cases "i = n")
    case True
    then show ?thesis using len Suc.prems by (simp add: nth_append)
  next
    case False
    then have i: "i < n" using Suc.prems by simp
    then have "i * m + j < n * m" using Suc.prems(3) by (rule index_bound)
    then show ?thesis using len Suc.IH [OF _ i Suc.prems(3)] Suc.prems(1) by (simp add: nth_append)
  qed
qed

lemma reshape3_arange:
  "pp * dp * tp = ws \<Longrightarrow>
   reshape3 (arange ws) (pp, dp, tp) = Inr \<lparr>shape3 = (pp, dp, tp), flat3 = [0..<ws]\<rparr>"
  by (simp add: reshape3_def arange_def)

lemma item3_ranks:
  assumes "p < pp" "d < dp" "t < tp"
  shows "item3 \<lparr>shape3 = (pp, dp, tp), flat3 = [0..<pp * dp * tp]\<rparr> p d t = (p * dp + d) * tp + t"
proof -
  have "p * dp + d < pp * dp" using assms(1,2) by (rule index_bound)
  then have "(p * dp + d) * tp + t < pp * dp * tp" using assms(3) by (rule index_bound)
  then show ?thesis by (simp add: item3_def)
qed

lemma rows_tp:
  "reshape2 \<lparr>shape3 = (pp, dp, tp), flat3 = [0..<pp * dp * tp]\<rparr> (pp * dp, tp)
     = Inr (map (\<lambda>r. map (\<lambda>k. r * tp + k) [0..<tp]) [0..<pp * dp])"
proof -
  have "\<And>r k. r < pp * dp \<Longrightarrow> k < tp \<Longrightarrow> [0..<pp * dp * tp] ! (r * tp + k) = r * tp + k"
    using index_bound [of _ "pp * dp" _ tp] by simp
  then show ?thesis by (simp add: reshape2_def)
qed

lemma div_mod_index: "j < b \<Longrightarrow> (i * b + j) div b = i \<and> (i * b + j) mod b = (j::nat)"
  by simp

lemma flat_transpose_021:
  assumes "i < pp" "j < tp" "k < dp"
  shows "flat3 (transpose_021 \<lparr>shape3 = (pp, dp, tp), flat3 = [0..<pp * dp * tp]\<rparr>) ! ((i * tp + j) * dp + k)
     = (i * dp + k) * tp + j"
proof -
  let ?a = "\<lparr>shape3 = (pp, dp, tp), flat3 = [0..<pp * dp * tp]\<rparr>"
  let ?row = "\<lambda>i j. map (\<lambda>k. item3 ?a i k j) [0..<dp]"
  let ?inner = "\<lambda>i. concat (map (?row i) [0..<tp])"
  have len: "length (?inner i) = tp * dp" for i
    by (intro length_concat_map_upt) simp
  have jk: "j * dp + k < tp * dp" using assms(2,3) by (rule index_bound)
  have idx: "(i * tp + j) * dp + k = i * (tp * dp) + (j * dp + k)" by (simp add: algebra_simps)
  have flat: "flat3 (transpose_021 ?a) = concat (map ?inner [0..<pp])"
    by (simp add: transpose_021_def)
  have "concat (map ?inner [0..<pp]) ! (i * (tp * dp) + (j * dp + k)) = ?inner i ! (j * dp + k)"
    by (rule nth_concat_map_upt) (simp_all only: len assms(1) jk)
  also have "?inner i ! (j * dp + k) = ?row i j ! k"
    by (rule nth_concat_map_upt) (simp_all add: assms)
  also have "\<dots> = (i * dp + k) * tp + j"
    using assms by (simp add: item3_ranks)
  finally show ?thesis unfolding flat idx .
qed

lemma length_flat_transpose_021:
  "length (flat3 (transpose_021 \<lparr>shape3 = (pp, dp, tp), flat3 = xs\<rparr>)) = pp * tp * dp"
proof -
  have "length (concat (map (\<lambda>i. concat (map (\<lambda>j. map (\<lambda>k. f i k j) [0..<dp]) [0..<tp])) [0..<pp]))
      = pp * (tp * dp)" for f :: "nat \<Rightarrow> nat \<Rightarrow> nat \<Rightarrow> nat"
    by (intro length_concat_map_upt) simp
  then show ?thesis by (simp add: transpose_021_def)
qed

lemma rows_dp:
  "reshape2 (transpose_021 \<lparr>shape3 = (pp, dp, tp), flat3 = [0..<pp * dp * tp]\<rparr>) (pp * tp, dp)
     = Inr (map (\<lambda>r. map (\<lambda>k. ((r div tp) * dp + k) * tp + r mod tp) [0..<dp]) [0..<pp * tp])"
proof -
  let ?a = "\<lparr>shape3 = (pp, dp, tp), flat3 = [0..<pp * dp * tp]\<rparr>"
  have elt: "flat3 (transpose_021 ?a) ! (r * dp + k) = ((r div tp) * dp + k) * tp + r mod tp"
    if "r < pp * tp" "k < dp" for r k
  proof -
    have tp: "0 < tp" using that(1) by (cases tp) simp_all
    have "r div tp < pp" using that(1) tp by (simp add: less_mult_imp_div_less)
    moreover have "r mod tp < tp" using tp by simp
    ultimately show ?thesis
      using flat_transpose_021 [of "r div tp" pp "r mod tp" tp k dp] that(2) by simp
  qed
  have "map (\<lambda>i. map (\<lambda>k. flat3 (transpose_021 ?a) ! (i * dp + k)) [0..<dp]) [0..<pp * tp]
      = map (\<lambda>r. map (\<lambda>k. ((r div tp) * dp + k) * tp + r mod tp) [0..<dp]) [0..<pp * tp]"
    by (intro map_cong refl) (simp add: elt)
  then show ?thesis
    unfolding reshape2_def by (simp only: length_flat_transpose_021 prod.case) simp
qed

lemma flat_transpose_210:
  assumes "i < tp" "j < dp" "k < pp"
  shows "flat3 (transpose_210 \<lparr>shape3 = (pp, dp, tp), flat3 = [0..<pp * dp * tp]\<rparr>) ! ((i * dp + j) * pp + k)
     = (k * dp + j) * tp + i"
proof -
  let ?a = "\<lparr>shape3 = (pp, dp, tp), flat3 = [0..<pp * dp * tp]\<rparr>"
  let ?row = "\<lambda>i j. map (\<lambda>k. item3 ?a k j i) [0..<pp]"
  let ?inner = "\<lambda>i. concat (map (?row i) [0..<dp])"
  have len: "length (?inner i) = dp * pp" for i
    by (intro length_concat_map_upt) simp
  have jk: "j * pp + k < dp * pp" using assms(2,3) by (rule index_bound)
  have idx: "(i * dp + j) * pp + k = i * (dp * pp) + (j * pp + k)" by (simp add: algebra_simps)
  have flat: "flat3 (transpose_210 ?a) = concat (map ?inner [0..<tp])"
    by (simp add: transpose_210_def)
  have "concat (map ?inner [0..<tp]) ! (i * (dp * pp) + (j * pp + k)) = ?inner i ! (j * pp + k)"
    by (rule nth_concat_map_upt) (simp_all only: len assms(1) jk)
  also have "?inner i ! (j * pp + k) = ?row i j ! k"
    by (rule nth_concat_map_upt) (simp_all add: assms)
  also have "\<dots> = (k * dp + j) * tp + i"
    using assms by (simp add: item3_ranks)
  finally show ?thesis unfolding flat idx .
qed

lemma length_flat_transpose_210:
  "length (flat3 (transpose_210 \<lparr>shape3 = (pp, dp, tp), flat3 = xs\<rparr>)) = tp * dp * pp"
proof -
  have "length (concat (map (\<lambda>i. concat (map (\<lambda>j. map (\<lambda>k. f k j i) [0..<pp]) [0..<dp])) [0..<tp]))
      = tp * (dp * pp)" for f :: "nat \<Rightarrow> nat \<Rightarrow> nat \<Rightarrow> nat"
    by (intro length_concat_map_upt) simp
  then show ?thesis by (simp add: transpose_210_def)
qed

lemma rows_pp:
  "reshape2 (transpose_210 \<lparr>shape3 = (pp, dp, tp), flat3 = [0..<pp * dp * tp]\<rparr>) (tp * dp, pp)
     = Inr (map (\<lambda>r. map (\<lambda>k. (k * dp + r mod dp) * tp + r div dp) [0..<pp]) [0..<tp * dp])"
proof -
  let ?a = "\<lparr>shape3 = (pp, dp, tp), flat3 = [0..<pp * dp * tp]\<rparr>"
  have elt: "flat3 (transpose_210 ?a) ! (r * pp + k) = (k * dp + r mod dp) * tp + r div dp"
    if "r < tp * dp" "k < pp" for r k
  proof -
    have dp: "0 < dp" using that(1) by (cases dp) simp_all
    have "r div dp < tp" using that(1) dp by (simp add: less_mult_imp_div_less)
    moreover have "r mod dp < dp" using dp by simp
    ultimately show ?thesis
      using flat_transpose_210 [of "r div dp" tp "r mod dp" dp k pp] that(2) by simp
  qed
  have "map (\<lambda>i. map (\<lambda>k. flat3 (transpose_210 ?a) ! (i * pp + k)) [0..<pp]) [0..<tp * dp]
      = map (\<lambda>r. map (\<lambda>k. (k * dp + r mod dp) * tp + r div dp) [0..<pp]) [0..<tp * dp]"
    by (intro map_cong refl) (simp add: elt)
  then show ?thesis
    unfolding reshape2_def by (simp only: length_flat_transpose_210 prod.case) simp
qed

lemma rows_model:
  "d < dp \<Longrightarrow>
   slice_axis1 \<lparr>shape3 = (pp, dp, tp), flat3 = [0..<pp * dp * tp]\<rparr> d
     = concat (map (\<lambda>p. map (\<lambda>t. (p * dp + d) * tp + t) [0..<tp]) [0..<pp])"
proof -
  assume d: "d < dp"
  have "map (\<lambda>p. map (\<lambda>t. item3 \<lparr>shape3 = (pp, dp, tp), flat3 = [0..<pp * dp * tp]\<rparr> p d t) [0..<tp]) [0..<pp]
      = map (\<lambda>p. map (\<lambda>t. (p * dp + d) * tp + t) [0..<tp]) [0..<pp]"
    by (intro map_cong refl) (simp add: item3_ranks d)
  then show ?thesis unfolding slice_axis1_def by (simp only: prod.case ndarray3.simps)
qed

section \<open>Proofs: ParallelContext construction and teardown\<close>

lemma raising_cases:
  "(\<And>e. r = Inl e \<Longrightarrow> P (Inl e, s)) \<Longrightarrow> (\<And>x. r = Inr x \<Longrightarrow> P (k x)) \<Longrightarrow> P (raising r s k)"
  by (cases r) (simp_all add: raising_def)

lemma reshape3_error: "reshape3 xs shp = Inl e \<Longrightarrow> e = ValueError ''cannot reshape array''"
  by (auto simp: reshape3_def split: prod.splits if_splits)

lemma reshape2_error: "reshape2 a shp = Inl e \<Longrightarrow> e = ValueError ''cannot reshape array''"
  by (auto simp: reshape2_def split: prod.splits if_splits)

lemma size_check_error_simps [simp]:
  "\<not> size_check_error (Inl (ValueError m))"
  "\<not> size_check_error (Inl (AttributeError m))"
  "\<not> size_check_error (Inl (UnboundLocalError m))"
  "\<not> size_check_error (Inr x)"
  "size_check_error (Inl ZeroDivisionError)"
  by (simp_all add: size_check_error_def)

lemma init_parallel_groups_not_size_error:
  "\<not> size_check_error (fst (init_parallel_groups self env s))"
  unfolding init_parallel_groups_def Let_def
  apply (simp split: option.split)
  apply (intro allI impI conjI)
  apply (rule raising_cases)
   apply (drule reshape3_error, simp)
  apply (rule raising_cases)
   apply (drule reshape2_error, simp)
  apply (simp only: split_def)
  apply (rule raising_cases)
   apply (drule reshape2_error, simp)
  apply (rule raising_cases)
   apply (drule reshape2_error, simp)
  apply (simp split: option.split)
  done


lemma returns_simps [simp]:
  "returns P (Inl e, s)" "returns P (Inr x, s) = P x"
  by (simp_all add: returns_def)

lemma init_parallel_groups_private_aux:
  "returns (\<lambda>self'. private_groups self' = private_groups self) (init_parallel_groups self env s)"
  unfolding init_parallel_groups_def Let_def
  apply (simp split: option.split)
  apply (intro allI impI conjI)
  apply (rule raising_cases, simp)
  apply (rule raising_cases, simp)
  apply (simp only: split_def)
  apply (rule raising_cases, simp)
  apply (rule raising_cases, simp)
  apply (simp split: option.split)
  done

lemma init_parallel_groups_private:
  "init_parallel_groups self env s = (Inr self', s') \<Longrightarrow> private_groups self' = private_groups self"
  using init_parallel_groups_private_aux [of self env s] by simp

lemma init_parallel_groups_world_pg_aux:
  "returns (\<lambda>self'. world_pg self' = world_pg self) (init_parallel_groups self env s)"
  unfolding init_parallel_groups_def Let_def
  apply (simp split: option.split)
  apply (intro allI impI conjI)
  apply (rule raising_cases, simp)
  apply (rule raising_cases, simp)
  apply (simp only: split_def)
  apply (rule raising_cases, simp)
  apply (rule raising_cases, simp)
  apply (simp split: option.split)
  done

lemma init_parallel_groups_world_pg:
  "init_parallel_groups self env s = (Inr self', s') \<Longrightarrow> world_pg self' = world_pg self"
  using init_parallel_groups_world_pg_aux [of self env s] by simp

lemma init_global_dist_cases:
  "init_global_dist self rank ws backend s = (r, s') \<Longrightarrow>
     (r = Inl (AssertionError ''Only nccl backend is supported for now.'') \<and> s' = s \<and> backend \<noteq> ''nccl'')
   \<or> (backend = ''nccl'' \<and> (\<exists>g. r = Inr (self\<lparr>world_pg := Some g\<rparr>)))"
  by (auto simp: init_global_dist_def Let_def new_group_def split: if_splits)

lemma init_private_groups_empty:
  assumes "ParallelContext_init tp pp dp backend env s = (Inr self, s')"
  shows "private_groups self = []"
proof -
  let ?self0 = "\<lparr>tensor_parallel_size = tp, pipeline_parallel_size = pp, data_parallel_size = dp,
                    private_groups = [], world_pg = None, tp_pg = None, dp_pg = None,
                    pp_pg = None, world_rank_matrix = None, world_ranks_to_pg = []\<rparr>"
  let ?s1 = "set_device env s"
  let ?g = "if \<not> initialized ?s1 then init_global_dist ?self0 (RANK env) (WORLD_SIZE env) backend ?s1
            else (Inr ?self0, ?s1)"
  obtain r2 s2 where g: "?g = (r2, s2)" by (cases ?g)
  from assms g obtain self2 where r2: "r2 = Inr self2"
    by (cases r2) (auto simp: ParallelContext_init_def Let_def split: if_splits)
  have p2: "private_groups self2 = []"
  proof (cases "initialized ?s1")
    case True
    with g r2 show ?thesis by auto
  next
    case False
    with g r2 init_global_dist_cases [of ?self0 "RANK env" "WORLD_SIZE env" backend ?s1 r2 s2]
    show ?thesis by auto
  qed
  obtain r3 s3 where i: "init_parallel_groups self2 env s2 = (r3, s3)"
    by (cases "init_parallel_groups self2 env s2")
  from assms g r2 i have "r3 = Inr self"
    by (cases r3) (auto simp: ParallelContext_init_def Let_def split: if_splits)
  with i init_parallel_groups_private [of self2 env s2 self s3] p2 show ?thesis by simp
qed


lemma mult_swap: "(a::int) * b * c = a * c * b"
  by (simp add: ac_simps)

lemma init_size_error_if:
  assumes "dp = 0 \<or> tp * pp = 0 \<or> int (WORLD_SIZE env) mod dp \<noteq> 0
         \<or> int (WORLD_SIZE env) mod (tp * pp) \<noteq> 0 \<or> tp * dp * pp \<noteq> int (WORLD_SIZE env)"
  shows "size_check_error (fst (ParallelContext_init tp pp dp backend env s))
       \<and> snd (ParallelContext_init tp pp dp backend env s) = s"
proof -
  consider (a) "dp = 0"
    | (b) "dp \<noteq> 0" "int (WORLD_SIZE env) mod dp \<noteq> 0"
    | (c) "dp \<noteq> 0" "int (WORLD_SIZE env) mod dp = 0" "tp * pp = 0"
    | (d) "dp \<noteq> 0" "int (WORLD_SIZE env) mod dp = 0" "tp * pp \<noteq> 0"
          "int (WORLD_SIZE env) mod (tp * pp) \<noteq> 0"
    | (e) "dp \<noteq> 0" "int (WORLD_SIZE env) mod dp = 0" "tp * pp \<noteq> 0"
          "int (WORLD_SIZE env) mod (tp * pp) = 0" "tp * pp * dp \<noteq> int (WORLD_SIZE env)"
    using assms unfolding mult_swap [of tp dp pp] by argo
  then show ?thesis
  proof cases
    case a
    then show ?thesis by (simp add: ParallelContext_init_def Let_def size_check_error_def)
  next
    case b
    then show ?thesis by (simp add: ParallelContext_init_def Let_def size_check_error_def)
  next
    case c
    then show ?thesis by (simp add: ParallelContext_init_def Let_def size_check_error_def)
  next
    case d
    then show ?thesis by (simp add: ParallelContext_init_def Let_def size_check_error_def)
  next
    case e
    then show ?thesis by (simp add: ParallelContext_init_def Let_def size_check_error_def)
  qed
qed

lemma init_rest:
  assumes "\<not> (dp = 0 \<or> tp * pp = 0 \<or> int (WORLD_SIZE env) mod dp \<noteq> 0
         \<or> int (WORLD_SIZE env) mod (tp * pp) \<noteq> 0 \<or> tp * dp * pp \<noteq> int (WORLD_SIZE env))"
  shows "ParallelContext_init tp pp dp backend env s =
      (if \<not> available s then
        (Inl (ValueError
           ''`torch.distributed is not available as a package, please install it.''), s)
      else
        let self = \<lparr>tensor_parallel_size = tp,
                    pipeline_parallel_size = pp,
                    data_parallel_size = dp,
                    private_groups = [], world_pg = None, tp_pg = None, dp_pg = None,
                    pp_pg = None, world_rank_matrix = None, world_ranks_to_pg = []\<rparr>;
            s1 = set_device env s
        in
        (case (if \<not> initialized s1
               then init_global_dist self (RANK env) (WORLD_SIZE env) backend s1
               else (Inr self, s1)) of
           (Inl e, s2) \<Rightarrow> (Inl e, s2)
         | (Inr self2, s2) \<Rightarrow>
             (case init_parallel_groups self2 env s2 of
                (Inl e, s3) \<Rightarrow> (Inl e, s3)
              | (Inr self3, s3) \<Rightarrow> (Inr self3, barrier None s3))))"
proof -
  have "tp * pp * dp = int (WORLD_SIZE env)" "dp \<noteq> 0" "tp * pp \<noteq> 0"
     "int (WORLD_SIZE env) mod dp = 0" "int (WORLD_SIZE env) mod (tp * pp) = 0"
    using assms unfolding mult_swap [of tp dp pp] by blast+
  then show ?thesis
    by (simp add: ParallelContext_init_def Let_def)
qed

lemma init_no_size_error:
  assumes "\<not> (dp = 0 \<or> tp * pp = 0 \<or> int (WORLD_SIZE env) mod dp \<noteq> 0
         \<or> int (WORLD_SIZE env) mod (tp * pp) \<noteq> 0 \<or> tp * dp * pp \<noteq> int (WORLD_SIZE env))"
  shows "\<not> size_check_error (fst (ParallelContext_init tp pp dp backend env s))"
proof (cases "available s")
  case False
  then show ?thesis by (simp add: init_rest [OF assms])
next
  case True
  let ?self0 = "\<lparr>tensor_parallel_size = tp, pipeline_parallel_size = pp, data_parallel_size = dp,
                    private_groups = [], world_pg = None, tp_pg = None, dp_pg = None,
                    pp_pg = None, world_rank_matrix = None, world_ranks_to_pg = []\<rparr>"
  let ?s1 = "set_device env s"
  let ?g = "if \<not> initialized ?s1 then init_global_dist ?self0 (RANK env) (WORLD_SIZE env) backend ?s1
            else (Inr ?self0, ?s1)"
  obtain r2 s2 where g: "?g = (r2, s2)" by (cases ?g)
  show ?thesis
  proof (cases r2)
    case (Inl e)
    with g have "\<not> initialized ?s1" by (auto split: if_splits)
    with g Inl have "e = AssertionError ''Only nccl backend is supported for now.''"
      using init_global_dist_cases [of ?self0 "RANK env" "WORLD_SIZE env" backend ?s1 r2 s2] by auto
    then have "\<not> size_check_error (Inl e :: error + ParallelContext)" by (simp add: size_check_error_def)
    with g Inl True show ?thesis by (simp add: init_rest [OF assms] Let_def)
  next
    case (Inr self2)
    obtain r3 s3 where i: "init_parallel_groups self2 env s2 = (r3, s3)"
      by (cases "init_parallel_groups self2 env s2")
    have "\<not> size_check_error r3"
      using init_parallel_groups_not_size_error [of self2 env s2] i by simp
    with g Inr True i show ?thesis
      by (cases r3) (simp_all add: init_rest [OF assms] Let_def)
  qed
qed


text \<open>
  C2 (as amended). Construction fails at its three size checks, with one of the three
  assertion errors (the third carries a pair of strings as its message) or with the
  ZeroDivisionError of a modulo by a zero size, if and only if
  a size is zero or \<open>world_size % data_parallel_size \<noteq> 0\<close> or
  \<open>world_size % (tensor_parallel_size * pipeline_parallel_size) \<noteq> 0\<close> or the product of
  the three sizes differs from \<open>world_size\<close>; the runtime is then untouched (no group has
  been created, nothing is retried). With sizes that pass, construction still fails
  before any group is created when torch.distributed is unavailable (ValueError), and when
  the default process group is not yet initialised and the backend is not nccl
  (AssertionError).
\<close>

theorem init_size_checks:
  "(size_check_error (fst (ParallelContext_init tp pp dp backend env s)) \<longleftrightarrow>
      (dp = 0 \<or> tp * pp = 0 \<or> int (WORLD_SIZE env) mod dp \<noteq> 0
         \<or> int (WORLD_SIZE env) mod (tp * pp) \<noteq> 0 \<or> tp * dp * pp \<noteq> int (WORLD_SIZE env)))
   \<and> (size_check_error (fst (ParallelContext_init tp pp dp backend env s)) \<longrightarrow>
        snd (ParallelContext_init tp pp dp backend env s) = s)
   \<and> (\<not> size_check_error (fst (ParallelContext_init tp pp dp backend env s)) \<and> \<not> available s \<longrightarrow>
        ParallelContext_init tp pp dp backend env s =
          (Inl (ValueError ''`torch.distributed is not available as a package, please install it.''), s))
   \<and> (\<not> size_check_error (fst (ParallelContext_init tp pp dp backend env s)) \<and> available s
        \<and> \<not> initialized s \<and> backend \<noteq> ''nccl'' \<longrightarrow>
        ParallelContext_init tp pp dp backend env s =
          (Inl (AssertionError ''Only nccl backend is supported for now.''), set_device env s)
        \<and> groups (set_device env s) = groups s)"
proof -
  let ?C = "dp = 0 \<or> tp * pp = 0 \<or> int (WORLD_SIZE env) mod dp \<noteq> 0
         \<or> int (WORLD_SIZE env) mod (tp * pp) \<noteq> 0 \<or> tp * dp * pp \<noteq> int (WORLD_SIZE env)"
  let ?r = "ParallelContext_init tp pp dp backend env s"
  have iff: "size_check_error (fst ?r) \<longleftrightarrow> ?C"
    using init_size_error_if [of dp tp pp env backend s] init_no_size_error [of dp tp pp env backend s]
    by argo
  have untouched: "size_check_error (fst ?r) \<longrightarrow> snd ?r = s"
    using iff init_size_error_if [of dp tp pp env backend s] by argo
  have unavailable: "\<not> size_check_error (fst ?r) \<and> \<not> available s \<longrightarrow>
        ?r = (Inl (ValueError ''`torch.distributed is not available as a package, please install it.''), s)"
  proof
    assume a: "\<not> size_check_error (fst ?r) \<and> \<not> available s"
    with iff have "\<not> ?C" by argo
    from init_rest [OF this] a
    show "?r = (Inl (ValueError ''`torch.distributed is not available as a package, please install it.''), s)"
      by simp
  qed
  have backend: "\<not> size_check_error (fst ?r) \<and> available s \<and> \<not> initialized s \<and> backend \<noteq> ''nccl'' \<longrightarrow>
        ?r = (Inl (AssertionError ''Only nccl backend is supported for now.''), set_device env s)
        \<and> groups (set_device env s) = groups s"
  proof
    assume a: "\<not> size_check_error (fst ?r) \<and> available s \<and> \<not> initialized s \<and> backend \<noteq> ''nccl''"
    with iff have "\<not> ?C" by argo
    from init_rest [OF this] a
    show "?r = (Inl (AssertionError ''Only nccl backend is supported for now.''), set_device env s)
        \<and> groups (set_device env s) = groups s"
      by (simp add: Let_def set_device_def init_global_dist_def)
  qed
  from iff untouched unavailable backend show ?thesis by argo
qed

theorem init_fails_fast_counterexample:
  "fst (ParallelContext_init 1 1 1 ''gloo'' \<lparr>RANK = 0, WORLD_SIZE = 1, LOCAL_RANK = 0\<rparr>
          \<lparr>available = True, initialized = False, groups = [], trace = []\<rparr>)
     = Inl (AssertionError ''Only nccl backend is supported for now.'')
   \<and> groups (snd (ParallelContext_init 1 1 1 ''gloo'' \<lparr>RANK = 0, WORLD_SIZE = 1, LOCAL_RANK = 0\<rparr>
          \<lparr>available = True, initialized = False, groups = [], trace = []\<rparr>)) = []
   \<and> \<not> (int 1 mod 1 \<noteq> 0 \<or> int 1 mod (1 * 1) \<noteq> 0 \<or> 1 * 1 * 1 \<noteq> int 1)"
  by (simp add: ParallelContext_init_def Let_def set_device_def init_global_dist_def)

theorem init_size_checks_witness:
  "size_check_error (fst (ParallelContext_init 2 2 2 ''nccl'' \<lparr>RANK = 0, WORLD_SIZE = 7, LOCAL_RANK = 0\<rparr>
          \<lparr>available = True, initialized = False, groups = [], trace = []\<rparr>))
   \<and> snd (ParallelContext_init 2 2 2 ''nccl'' \<lparr>RANK = 0, WORLD_SIZE = 7, LOCAL_RANK = 0\<rparr>
          \<lparr>available = True, initialized = False, groups = [], trace = []\<rparr>)
       = \<lparr>available = True, initialized = False, groups = [], trace = []\<rparr>
   \<and> ParallelContext_init 2 2 2 ''nccl'' \<lparr>RANK = 0, WORLD_SIZE = 8, LOCAL_RANK = 0\<rparr>
          \<lparr>available = False, initialized = False, groups = [], trace = []\<rparr>
       = (Inl (ValueError ''`torch.distributed is not available as a package, please install it.''),
          \<lparr>available = False, initialized = False, groups = [], trace = []\<rparr>)
   \<and> ParallelContext_init 2 2 2 ''mpi'' \<lparr>RANK = 0, WORLD_SIZE = 8, LOCAL_RANK = 0\<rparr>
          \<lparr>available = True, initialized = False, groups = [], trace = []\<rparr>
       = (Inl (AssertionError ''Only nccl backend is supported for now.''),
          \<lparr>available = True, initialized = False, groups = [], trace = [SetDevice 0]\<rparr>)
   \<and> fst (ParallelContext_init 2 2 2 ''nccl'' \<lparr>RANK = 0, WORLD_SIZE = 7, LOCAL_RANK = 0\<rparr>
          \<lparr>available = True, initialized = False, groups = [], trace = []\<rparr>)
       = Inl (AssertionError
           ''The total number of processes must be divisible by the data parallel size.'')
   \<and> fst (ParallelContext_init 2 2 2 ''nccl'' \<lparr>RANK = 0, WORLD_SIZE = 6, LOCAL_RANK = 0\<rparr>
          \<lparr>available = True, initialized = False, groups = [], trace = []\<rparr>)
       = Inl (AssertionError
           ''The total number of processes must be divisible bythe number of GPUs per model (tensor_parallel_size * pipeline_parallel_size).'')
   \<and> fst (ParallelContext_init 2 2 2 ''nccl'' \<lparr>RANK = 0, WORLD_SIZE = 16, LOCAL_RANK = 0\<rparr>
          \<lparr>available = True, initialized = False, groups = [], trace = []\<rparr>)
       = Inl (AssertionError_tuple
           [''The number of process requires to train all replicas'',
            ''must be equal to the world size.''])
   \<and> fst (ParallelContext_init 2 2 0 ''nccl'' \<lparr>RANK = 0, WORLD_SIZE = 8, LOCAL_RANK = 0\<rparr>
          \<lparr>available = True, initialized = False, groups = [], trace = []\<rparr>)
       = Inl ZeroDivisionError"
proof -
  let ?s = "\<lparr>available = True, initialized = False, groups = [], trace = []\<rparr>"
  let ?u = "\<lparr>available = False, initialized = False, groups = [], trace = []\<rparr>"
  let ?e7 = "\<lparr>RANK = 0, WORLD_SIZE = 7, LOCAL_RANK = 0\<rparr>"
  let ?e8 = "\<lparr>RANK = 0, WORLD_SIZE = 8, LOCAL_RANK = 0\<rparr>"
  have c7: "(2::int) = 0 \<or> (2::int) * 2 = 0 \<or> int (WORLD_SIZE ?e7) mod 2 \<noteq> 0
         \<or> int (WORLD_SIZE ?e7) mod (2 * 2) \<noteq> 0 \<or> (2::int) * 2 * 2 \<noteq> int (WORLD_SIZE ?e7)"
    by simp
  have c8: "\<not> ((2::int) = 0 \<or> (2::int) * 2 = 0 \<or> int (WORLD_SIZE ?e8) mod 2 \<noteq> 0
         \<or> int (WORLD_SIZE ?e8) mod (2 * 2) \<noteq> 0 \<or> (2::int) * 2 * 2 \<noteq> int (WORLD_SIZE ?e8))"
    by simp
  note t7 = init_size_checks [of 2 2 2 "''nccl''" ?e7 ?s]
  note t8u = init_size_checks [of 2 2 2 "''nccl''" ?e8 ?u]
  note t8m = init_size_checks [of 2 2 2 "''mpi''" ?e8 ?s]
  have a: "size_check_error (fst (ParallelContext_init 2 2 2 ''nccl'' ?e7 ?s))"
    by (rule iffD2 [OF t7 [THEN conjunct1] c7])
  have b: "snd (ParallelContext_init 2 2 2 ''nccl'' ?e7 ?s) = ?s"
    by (rule mp [OF t7 [THEN conjunct2, THEN conjunct1] a])
  have nu: "\<not> size_check_error (fst (ParallelContext_init 2 2 2 ''nccl'' ?e8 ?u))"
  proof
    assume "size_check_error (fst (ParallelContext_init 2 2 2 ''nccl'' ?e8 ?u))"
    from iffD1 [OF t8u [THEN conjunct1] this] c8 show False by (rule notE [rotated])
  qed
  have "\<not> available ?u" by simp
  with nu have c: "ParallelContext_init 2 2 2 ''nccl'' ?e8 ?u =
      (Inl (ValueError ''`torch.distributed is not available as a package, please install it.''), ?u)"
    by (intro mp [OF t8u [THEN conjunct2, THEN conjunct2, THEN conjunct1]] conjI)
  have nm: "\<not> size_check_error (fst (ParallelContext_init 2 2 2 ''mpi'' ?e8 ?s))"
  proof
    assume "size_check_error (fst (ParallelContext_init 2 2 2 ''mpi'' ?e8 ?s))"
    from iffD1 [OF t8m [THEN conjunct1] this] c8 show False by (rule notE [rotated])
  qed
  have "available ?s" "\<not> initialized ?s" "''mpi'' \<noteq> ''nccl''" by simp_all
  with nm have "ParallelContext_init 2 2 2 ''mpi'' ?e8 ?s =
      (Inl (AssertionError ''Only nccl backend is supported for now.''), set_device ?e8 ?s)
      \<and> groups (set_device ?e8 ?s) = groups ?s"
    by (intro mp [OF t8m [THEN conjunct2, THEN conjunct2, THEN conjunct2]] conjI)
  then have d: "ParallelContext_init 2 2 2 ''mpi'' ?e8 ?s =
      (Inl (AssertionError ''Only nccl backend is supported for now.''),
       \<lparr>available = True, initialized = False, groups = [], trace = [SetDevice 0]\<rparr>)"
    by (simp add: set_device_def)
  have e: "fst (ParallelContext_init 2 2 2 ''nccl'' ?e7 ?s)
       = Inl (AssertionError
           ''The total number of processes must be divisible by the data parallel size.'')"
    by (simp add: ParallelContext_init_def Let_def)
  have f: "fst (ParallelContext_init 2 2 2 ''nccl'' \<lparr>RANK = 0, WORLD_SIZE = 6, LOCAL_RANK = 0\<rparr> ?s)
       = Inl (AssertionError
           ''The total number of processes must be divisible bythe number of GPUs per model (tensor_parallel_size * pipeline_parallel_size).'')"
    by (simp add: ParallelContext_init_def Let_def)
  have g: "fst (ParallelContext_init 2 2 2 ''nccl'' \<lparr>RANK = 0, WORLD_SIZE = 16, LOCAL_RANK = 0\<rparr> ?s)
       = Inl (AssertionError_tuple
           [''The number of process requires to train all replicas'',
            ''must be equal to the world size.''])"
    by (simp add: ParallelContext_init_def Let_def)
  have h: "fst (ParallelContext_init 2 2 0 ''nccl'' ?e8 ?s) = Inl ZeroDivisionError"
    by (simp add: ParallelContext_init_def Let_def)
  from a b c d e f g h show ?thesis by (intro conjI)
qed

section \<open>Proofs: the registry of groups\<close>

lemma group_of_mono: "group_of s ranks g \<Longrightarrow> groups s' = groups s @ new \<Longrightarrow> group_of s' ranks g"
  by (simp add: group_of_def nth_append)

lemma registry_inv_empty: "registry_inv (length (groups s)) [] s"
  by (simp add: registry_inv_def)

lemma registry_inv_trace: "registry_inv base reg (s\<lparr>trace := t\<rparr>) = registry_inv base reg s"
  by (simp add: registry_inv_def)

lemma get_or_create_group_reuse:
  "map_of reg (sort ranks) = Some g \<Longrightarrow> get_or_create_group ranks (reg, s) = (g, reg, s)"
  by (simp add: get_or_create_group_def)

lemma get_or_create_group_new:
  "map_of reg (sort ranks) = None \<Longrightarrow>
   get_or_create_group ranks (reg, s)
     = (length (groups s), reg @ [(sort ranks, length (groups s))], s\<lparr>groups := groups s @ [ranks]\<rparr>)"
  by (simp add: get_or_create_group_def new_group_def)

lemma get_or_create_group_step:
  assumes "registry_inv base reg s" "get_or_create_group ranks (reg, s) = (g, reg', s')"
  shows "registry_inv base reg' s' \<and> group_of s' ranks g
       \<and> (\<exists>new. groups s' = groups s @ new) \<and> trace s' = trace s
       \<and> available s' = available s \<and> initialized s' = initialized s"
proof (cases "map_of reg (sort ranks)")
  case (Some g0)
  with assms(2) have eq: "g = g0" "reg' = reg" "s' = s"
    by (simp_all add: get_or_create_group_reuse)
  from Some have "(sort ranks, g0) \<in> set reg" by (rule map_of_SomeD)
  with assms(1) have "g0 < length (groups s) \<and> sort (groups s ! g0) = sort ranks"
    by (auto simp: registry_inv_def list_all_iff)
  with assms(1) eq show ?thesis by (simp add: group_of_def)
next
  case None
  with assms(2) have eq: "g = length (groups s)" "reg' = reg @ [(sort ranks, length (groups s))]"
    "s' = s\<lparr>groups := groups s @ [ranks]\<rparr>"
    by (auto simp: get_or_create_group_new)
  from None have fresh_key: "sort ranks \<notin> fst ` set reg" by (simp add: map_of_eq_None_iff)
  have fresh_grp: "length (groups s) \<notin> snd ` set reg"
    using assms(1) by (fastforce simp: registry_inv_def list_all_iff)
  have old: "list_all (\<lambda>(k, g). base \<le> g \<and> g < length (groups s') \<and> sort (groups s' ! g) = k) reg"
    using assms(1) eq(3) by (auto simp: registry_inv_def list_all_iff nth_append)
  have base: "base \<le> length (groups s)" using assms(1) by (simp add: registry_inv_def)
  have new_elt: "length (groups s) < length (groups s')"
    "sort (groups s' ! length (groups s)) = sort ranks"
    using eq(3) by simp_all
  have len: "length (groups s') = base + length reg'"
    using assms(1) eq(2,3) by (simp add: registry_inv_def)
  have keys: "distinct (map fst reg')" using assms(1) eq(2) fresh_key by (simp add: registry_inv_def)
  have vals: "distinct (map snd reg')" using assms(1) eq(2) fresh_grp by (simp add: registry_inv_def)
  have all: "list_all (\<lambda>(k, g). base \<le> g \<and> g < length (groups s') \<and> sort (groups s' ! g) = k) reg'"
    unfolding eq(2) using old base new_elt by simp
  have "registry_inv base reg' s'"
    unfolding registry_inv_def using keys vals len all by (intro conjI)
  moreover have "group_of s' ranks g" unfolding group_of_def eq(1) using new_elt by (intro conjI)
  ultimately show ?thesis using eq(3) by simp
qed

lemma axis_step_result:
  assumes "registry_inv base reg s" "axis_step rank ranks (reg, s, pg) = (reg', s', pg')"
  shows "registry_inv base reg' s' \<and> (\<exists>new. groups s' = groups s @ new) \<and> trace s' = trace s
       \<and> available s' = available s \<and> initialized s' = initialized s
       \<and> (if rank \<in> set ranks then (\<exists>g. pg' = Some g \<and> group_of s' ranks g) else pg' = pg)"
proof -
  obtain g r1 s1 where c: "get_or_create_group ranks (reg, s) = (g, r1, s1)"
    by (cases "get_or_create_group ranks (reg, s)")
  with assms(2) have eq: "reg' = r1" "s' = s1" "pg' = (if rank \<in> set ranks then Some g else pg)"
    by (simp_all add: axis_step_def)
  from get_or_create_group_step [OF assms(1) c] eq show ?thesis by auto
qed

lemma axis_fold:
  assumes "registry_inv base reg s" "fold (axis_step rank) rows (reg, s, pg) = (reg', s', pg')"
  shows "registry_inv base reg' s' \<and> (\<exists>new. groups s' = groups s @ new) \<and> trace s' = trace s
       \<and> available s' = available s \<and> initialized s' = initialized s
       \<and> (if \<exists>row \<in> set rows. rank \<in> set row
          then (\<exists>row \<in> set rows. \<exists>g. rank \<in> set row \<and> pg' = Some g \<and> group_of s' row g)
          else pg' = pg)"
  using assms
proof (induction rows arbitrary: reg s pg)
  case Nil
  then show ?case by simp
next
  case (Cons row rows)
  obtain r1 s1 p1 where st: "axis_step rank row (reg, s, pg) = (r1, s1, p1)"
    by (cases "axis_step rank row (reg, s, pg)")
  note a = axis_step_result [OF Cons.prems(1) st]
  from Cons.prems(2) st have f: "fold (axis_step rank) rows (r1, s1, p1) = (reg', s', pg')" by simp
  from a have inv1: "registry_inv base r1 s1" by simp
  note b = Cons.IH [OF inv1 f]
  from a b obtain n1 n2 where n: "groups s1 = groups s @ n1" "groups s' = groups s1 @ n2" by blast
  have pre: "\<exists>new. groups s' = groups s @ new" using n by simp
  show ?case
  proof (cases "\<exists>r \<in> set rows. rank \<in> set r")
    case True
    with a b pre show ?thesis by auto
  next
    case False
    with b have p: "pg' = p1" by simp
    show ?thesis
    proof (cases "rank \<in> set row")
      case True
      with a obtain g where g: "p1 = Some g" "group_of s1 row g" by auto
      from g(2) n(2) have "group_of s' row g" by (rule group_of_mono)
      with g p True a b pre show ?thesis by auto
    next
      case F2: False
      with False a b p pre show ?thesis by auto
    qed
  qed
qed

lemma model_fold:
  assumes "registry_inv base reg s" "fold model_step rows (reg, s) = (reg', s')"
  shows "registry_inv base reg' s' \<and> (\<exists>new. groups s' = groups s @ new) \<and> trace s' = trace s
       \<and> available s' = available s \<and> initialized s' = initialized s"
  using assms
proof (induction rows arbitrary: reg s)
  case Nil
  then show ?case by simp
next
  case (Cons row rows)
  obtain g r1 s1 where c: "get_or_create_group row (reg, s) = (g, r1, s1)"
    by (cases "get_or_create_group row (reg, s)")
  then have m: "model_step row (reg, s) = (r1, s1)" by (simp add: model_step_def)
  note a = get_or_create_group_step [OF Cons.prems(1) c]
  from Cons.prems(2) m have f: "fold model_step rows (r1, s1) = (reg', s')" by simp
  from a have inv1: "registry_inv base r1 s1" by simp
  note b = Cons.IH [OF inv1 f]
  from a b obtain n1 n2 where n: "groups s1 = groups s @ n1" "groups s' = groups s1 @ n2" by blast
  have pre: "\<exists>new. groups s' = groups s @ new" using n by simp
  with a b show ?case by simp
qed

section \<open>Proofs: coordinates of a rank\<close>

lemma coordinate_decompose:
  assumes "rank < pp * dp * tp"
  obtains p d t where "coordinate tp dp pp rank = (p, d, t)" "p < pp" "d < dp" "t < tp"
    "rank = (p * dp + d) * tp + t"
proof -
  have pos: "0 < pp" "0 < dp" "0 < tp"
    using assms by (cases pp; cases dp; cases tp; simp)+
  have "rank < pp * (tp * dp)" using assms by (simp add: ac_simps)
  then have p: "rank div (tp * dp) < pp" by (rule less_mult_imp_div_less)
  then have pm: "(rank div (tp * dp)) mod pp = rank div (tp * dp)" by simp
  have d: "(rank div tp) mod dp < dp" using pos by simp
  have t: "rank mod tp < tp" using pos by simp
  have "rank = (rank div tp) * tp + rank mod tp" by simp
  moreover have "rank div tp = (rank div tp div dp) * dp + (rank div tp) mod dp" by simp
  moreover have "rank div tp div dp = rank div (tp * dp)" by (simp add: div_mult2_eq)
  ultimately have "rank = (rank div (tp * dp) * dp + (rank div tp) mod dp) * tp + rank mod tp"
    by simp
  moreover have "coordinate tp dp pp rank = (rank div (tp * dp), (rank div tp) mod dp, rank mod tp)"
    using pm by (simp add: coordinate_def)
  ultimately show ?thesis using p d t that by blast
qed

lemma coordinate_of_position:
  assumes "p < pp" "d < dp" "t < tp"
  shows "coordinate tp dp pp ((p * dp + d) * tp + t) = (p, d, t)"
proof -
  have a: "((p * dp + d) * tp + t) div tp = p * dp + d" and c: "((p * dp + d) * tp + t) mod tp = t"
    using assms(3) by simp_all
  have "((p * dp + d) * tp + t) div (tp * dp) = (p * dp + d) div dp"
    using a by (simp add: div_mult2_eq)
  also have "\<dots> = p" using assms(2) by simp
  finally have b: "((p * dp + d) * tp + t) div (tp * dp) = p" .
  show ?thesis unfolding coordinate_def a b c using assms by simp
qed

lemma coordinate_bij:
  assumes "pp * dp * tp = ws"
  shows "bij_betw (coordinate tp dp pp) {0..<ws} ({0..<pp} \<times> {0..<dp} \<times> {0..<tp})"
proof (rule bij_betw_byWitness [where f' = "\<lambda>(p, d, t). (p * dp + d) * tp + t"])
  show "\<forall>r\<in>{0..<ws}. (case coordinate tp dp pp r of (p, d, t) \<Rightarrow> (p * dp + d) * tp + t) = r"
  proof
    fix r assume "r \<in> {0..<ws}"
    then have "r < pp * dp * tp" using assms by simp
    then obtain p d t where "coordinate tp dp pp r = (p, d, t)" "r = (p * dp + d) * tp + t"
      by (rule coordinate_decompose)
    then show "(case coordinate tp dp pp r of (p, d, t) \<Rightarrow> (p * dp + d) * tp + t) = r"
      by simp
  qed
next
  show "\<forall>c\<in>{0..<pp} \<times> {0..<dp} \<times> {0..<tp}.
          coordinate tp dp pp (case c of (p, d, t) \<Rightarrow> (p * dp + d) * tp + t) = c"
    by (auto simp: coordinate_of_position)
next
  show "coordinate tp dp pp ` {0..<ws} \<subseteq> {0..<pp} \<times> {0..<dp} \<times> {0..<tp}"
  proof
    fix c assume "c \<in> coordinate tp dp pp ` {0..<ws}"
    then obtain r where r: "r < pp * dp * tp" "c = coordinate tp dp pp r" using assms by auto
    from r(1) obtain p d t where "coordinate tp dp pp r = (p, d, t)" "p < pp" "d < dp" "t < tp"
      by (rule coordinate_decompose)
    with r(2) show "c \<in> {0..<pp} \<times> {0..<dp} \<times> {0..<tp}"
      by simp
  qed
next
  show "(\<lambda>(p, d, t). (p * dp + d) * tp + t) ` ({0..<pp} \<times> {0..<dp} \<times> {0..<tp}) \<subseteq> {0..<ws}"
  proof
    fix r assume "r \<in> (\<lambda>(p, d, t). (p * dp + d) * tp + t) ` ({0..<pp} \<times> {0..<dp} \<times> {0..<tp})"
    then obtain p d t where x: "p < pp" "d < dp" "t < tp" "r = (p * dp + d) * tp + t" by auto
    have "p * dp + d < pp * dp" using x(1,2) by (rule index_bound)
    then have "(p * dp + d) * tp + t < pp * dp * tp" using x(3) by (rule index_bound)
    then show "r \<in> {0..<ws}" using assms x(4) by simp
  qed
qed

text \<open>
  The arithmetic of \<open>get_3d_ranks\<close> is \<open>coordinate\<close>, once its lookups succeed. On the class as
  it stands they do not: the method raises whatever the context, and on a context the
  constructor has built the lookup of the group already raises KeyError.
\<close>

lemma get_3d_ranks_coordinate:
  assumes "0 < tp" "0 < dp" "0 < pp"
    and "get_group self parallel_mode = Inr g" "dist_get_global_rank g local_rank = Inr (int rank)"
    and "get_world_size TENSOR = Inr (int tp)" "get_world_size DATA = Inr (int dp)"
      "get_world_size PIPELINE = Inr (int pp)"
  shows "get_3d_ranks get_world_size dist_get_global_rank self local_rank parallel_mode
     = Inr (case coordinate tp dp pp rank of (p, d, t) \<Rightarrow> (int p, int d, int t))"
  using assms
  by (simp add: get_3d_ranks_def get_global_rank_from_local_rank_def coordinate_def Let_def
        zdiv_int zmod_int flip: of_nat_mult)

lemma get_3d_ranks_raises:
  "\<exists>e. get_3d_ranks get_world_size_missing dist_get_global_rank self local_rank parallel_mode = Inl e"
  by (simp add: get_3d_ranks_def get_world_size_missing_def split: sum.split)

lemma get_3d_ranks_after_build:
  assumes "ParallelContext_init tp pp dp backend env s = (Inr self, s')"
  shows "get_3d_ranks get_world_size dist_get_global_rank self local_rank parallel_mode
     = Inl (KeyError ''parallel_mode'')"
  using init_private_groups_empty [OF assms]
  by (simp add: get_3d_ranks_def get_global_rank_from_local_rank_def get_group_def)
section \<open>Proofs: the rows of each axis\<close>

lemma tp_rows_shape:
  "\<forall>row \<in> set (map (\<lambda>r. map (\<lambda>k. r * tp + k) [0..<tp]) [0..<pp * dp]).
     length row = tp \<and> distinct row"
  by (auto simp: distinct_map inj_on_def)

lemma dp_rows_shape:
  "\<forall>row \<in> set (map (\<lambda>r. map (\<lambda>k. ((r div tp) * dp + k) * tp + r mod tp) [0..<dp]) [0..<pp * tp]).
     length row = dp \<and> distinct row"
proof -
  have "inj_on (\<lambda>k. ((r div tp) * dp + k) * tp + r mod tp) {0..<dp}" if "r < pp * tp" for r
  proof -
    have "0 < tp" using that by (cases tp) simp_all
    then show ?thesis by (auto simp: inj_on_def)
  qed
  then show ?thesis by (auto simp: distinct_map)
qed

lemma pp_rows_shape:
  "\<forall>row \<in> set (map (\<lambda>r. map (\<lambda>k. (k * dp + r mod dp) * tp + r div dp) [0..<pp]) [0..<tp * dp]).
     length row = pp \<and> distinct row"
proof -
  have "inj_on (\<lambda>k. (k * dp + r mod dp) * tp + r div dp) {0..<pp}" if "r < tp * dp" for r
  proof -
    have "0 < tp" "0 < dp" using that by (cases tp; cases dp; simp)+
    then show ?thesis by (auto simp: inj_on_def)
  qed
  then show ?thesis by (auto simp: distinct_map)
qed

lemma in_map_upt: "r < n \<Longrightarrow> f r \<in> set (map f [0..<n])"
  by simp

lemma rank_in_tp_row:
  assumes "rank < pp * dp * tp"
  shows "\<exists>row \<in> set (map (\<lambda>r. map (\<lambda>k. r * tp + k) [0..<tp]) [0..<pp * dp]). rank \<in> set row"
proof -
  from assms obtain p d t where c: "p < pp" "d < dp" "t < tp" "rank = (p * dp + d) * tp + t"
    by (rule coordinate_decompose)
  have "p * dp + d < pp * dp" using c(1,2) by (rule index_bound)
  then have "map (\<lambda>k. (p * dp + d) * tp + k) [0..<tp]
      \<in> set (map (\<lambda>r. map (\<lambda>k. r * tp + k) [0..<tp]) [0..<pp * dp])"
    by (rule in_map_upt [where f = "\<lambda>r. map (\<lambda>k. r * tp + k) [0..<tp]"])
  moreover have "rank \<in> set (map (\<lambda>k. (p * dp + d) * tp + k) [0..<tp])" using c(3,4) by simp
  ultimately show ?thesis by blast
qed

lemma rank_in_dp_row:
  assumes "rank < pp * dp * tp"
  shows "\<exists>row \<in> set (map (\<lambda>r. map (\<lambda>k. ((r div tp) * dp + k) * tp + r mod tp) [0..<dp]) [0..<pp * tp]).
           rank \<in> set row"
proof -
  from assms obtain p d t where c: "p < pp" "d < dp" "t < tp" "rank = (p * dp + d) * tp + t"
    by (rule coordinate_decompose)
  let ?r = "p * tp + t"
  have r: "?r < pp * tp" using c(1,3) by (rule index_bound)
  have dm: "?r div tp = p" "?r mod tp = t" using c(3) by simp_all
  have "map (\<lambda>k. ((?r div tp) * dp + k) * tp + ?r mod tp) [0..<dp]
      \<in> set (map (\<lambda>r. map (\<lambda>k. ((r div tp) * dp + k) * tp + r mod tp) [0..<dp]) [0..<pp * tp])"
    using r by (rule in_map_upt [where f = "\<lambda>r. map (\<lambda>k. ((r div tp) * dp + k) * tp + r mod tp) [0..<dp]"])
  moreover have "rank \<in> set (map (\<lambda>k. ((?r div tp) * dp + k) * tp + ?r mod tp) [0..<dp])"
    unfolding dm c(4) using c(2) by (rule in_map_upt [where f = "\<lambda>k. (p * dp + k) * tp + t"])
  ultimately show ?thesis by blast
qed

lemma rank_in_pp_row:
  assumes "rank < pp * dp * tp"
  shows "\<exists>row \<in> set (map (\<lambda>r. map (\<lambda>k. (k * dp + r mod dp) * tp + r div dp) [0..<pp]) [0..<tp * dp]).
           rank \<in> set row"
proof -
  from assms obtain p d t where c: "p < pp" "d < dp" "t < tp" "rank = (p * dp + d) * tp + t"
    by (rule coordinate_decompose)
  let ?r = "t * dp + d"
  have r: "?r < tp * dp" using c(3,2) by (rule index_bound)
  have dm: "?r div dp = t" "?r mod dp = d" using c(2) by simp_all
  have "map (\<lambda>k. (k * dp + ?r mod dp) * tp + ?r div dp) [0..<pp]
      \<in> set (map (\<lambda>r. map (\<lambda>k. (k * dp + r mod dp) * tp + r div dp) [0..<pp]) [0..<tp * dp])"
    using r by (rule in_map_upt [where f = "\<lambda>r. map (\<lambda>k. (k * dp + r mod dp) * tp + r div dp) [0..<pp]"])
  moreover have "rank \<in> set (map (\<lambda>k. (k * dp + ?r mod dp) * tp + ?r div dp) [0..<pp])"
    unfolding dm c(4) using c(1) by (rule in_map_upt [where f = "\<lambda>k. (k * dp + d) * tp + t"])
  ultimately show ?thesis by blast
qed

lemma group_of_members:
  assumes "group_of s row g" "rank \<in> set row" "distinct row"
  shows "rank \<in> set (groups s ! g) \<and> length (groups s ! g) = length row \<and> distinct (groups s ! g)
       \<and> set (groups s ! g) = set row"
proof -
  from assms(1) have "sort (groups s ! g) = sort row" by (simp add: group_of_def)
  then have "mset (sort (groups s ! g)) = mset (sort row)" by simp
  then have m: "mset (groups s ! g) = mset row" by simp
  then have "set (groups s ! g) = set row" by (rule mset_eq_setD)
  moreover have "length (groups s ! g) = length row" using m by (rule mset_eq_length)
  moreover have "distinct (groups s ! g)" using mset_eq_imp_distinct_iff [OF m] assms(3) by simp
  ultimately show ?thesis using assms(2) by simp
qed

section \<open>Proofs: OptimizerFromGradientAccumulator\<close>

lemma state_dict_nests:
  "''gradient_accumulator'' \<notin> dom (base_state_dict c (optimizer self)) \<Longrightarrow>
   \<exists>sd. state_dict c self = Inr sd
      \<and> sd ''gradient_accumulator'' = Some (accumulator_state_dict c (gradient_accumulator self))
      \<and> (\<forall>k. k \<noteq> ''gradient_accumulator'' \<longrightarrow> sd k = base_state_dict c (optimizer self) k)"
  by (simp add: state_dict_def Let_def)

lemma state_dict_collision:
  "''gradient_accumulator'' \<in> dom (base_state_dict c (optimizer self)) \<Longrightarrow>
   \<exists>msg. state_dict c self = Inl (AssertionError msg)"
  by (simp add: state_dict_def Let_def)

text \<open>
  The base optimizer never sees the accumulator's key: replacing its \<open>load_state_dict\<close>
  by any function that agrees with it on the dicts without that key changes nothing.
\<close>

lemma load_never_shows_key:
  assumes "\<forall>b d. ''gradient_accumulator'' \<notin> dom d \<longrightarrow> f b d = base_load_state_dict c b d"
  shows "load_state_dict (c\<lparr>base_load_state_dict := f\<rparr>) self sd = load_state_dict c self sd"
proof -
  have "''gradient_accumulator'' \<notin> dom (sd(''gradient_accumulator'' := None))" by simp
  then have "f (optimizer self) (sd(''gradient_accumulator'' := None))
      = base_load_state_dict c (optimizer self) (sd(''gradient_accumulator'' := None))"
    using assms by blast
  then show ?thesis by (simp add: load_state_dict_def split: option.splits sum.splits)
qed

lemma load_missing_key:
  "sd ''gradient_accumulator'' = None \<Longrightarrow>
   load_state_dict c self sd = Inl (KeyError ''gradient_accumulator'')"
  by (simp add: load_state_dict_def)

lemma round_trip:
  assumes "''gradient_accumulator'' \<notin> dom (base_state_dict c (optimizer self))"
    and "base_load_state_dict c (optimizer target) (base_state_dict c (optimizer self))
           = Inr (optimizer self)"
    and "accumulator_load_state_dict c (gradient_accumulator target)
           (accumulator_state_dict c (gradient_accumulator self)) = Inr (gradient_accumulator self)"
  shows "\<exists>sd. state_dict c self = Inr sd \<and> load_state_dict c target sd = Inr self"
proof -
  let ?sd = "(base_state_dict c (optimizer self))
      (''gradient_accumulator'' \<mapsto> accumulator_state_dict c (gradient_accumulator self))"
  have s: "state_dict c self = Inr ?sd" using assms(1) by (simp add: state_dict_def Let_def)
  have "?sd(''gradient_accumulator'' := None) = base_state_dict c (optimizer self)"
    using assms(1) by (auto simp: domIff)
  then have "load_state_dict c target ?sd = Inr self"
    using assms(2,3) by (simp add: load_state_dict_def)
  with s show ?thesis by blast
qed

text \<open>
  C5. \<open>state_dict()\<close> nests the accumulator's state under the key "gradient_accumulator"
  after asserting that the key is absent from the base optimizer's state dict (a collision
  is an AssertionError); \<open>load_state_dict()\<close> removes that key from the incoming mapping
  before delegating the rest to the base optimizer, which therefore never sees it; and
  loading the result of \<open>state_dict()\<close> restores the base-optimizer state and the
  accumulator state exactly, whenever each collaborator restores its own state from its own
  state dict.
\<close>

theorem state_dict_round_trip:
  "(''gradient_accumulator'' \<notin> dom (base_state_dict c (optimizer self)) \<longrightarrow>
      (\<exists>sd. state_dict c self = Inr sd
         \<and> sd ''gradient_accumulator'' = Some (accumulator_state_dict c (gradient_accumulator self))
         \<and> (\<forall>k. k \<noteq> ''gradient_accumulator'' \<longrightarrow> sd k = base_state_dict c (optimizer self) k)))
   \<and> (''gradient_accumulator'' \<in> dom (base_state_dict c (optimizer self)) \<longrightarrow>
        (\<exists>msg. state_dict c self = Inl (AssertionError msg)))
   \<and> ((\<forall>b d. ''gradient_accumulator'' \<notin> dom d \<longrightarrow> f b d = base_load_state_dict c b d) \<longrightarrow>
        load_state_dict (c\<lparr>base_load_state_dict := f\<rparr>) target sd' = load_state_dict c target sd')
   \<and> (''gradient_accumulator'' \<notin> dom (base_state_dict c (optimizer self))
        \<and> base_load_state_dict c (optimizer target) (base_state_dict c (optimizer self))
             = Inr (optimizer self)
        \<and> accumulator_load_state_dict c (gradient_accumulator target)
             (accumulator_state_dict c (gradient_accumulator self))
             = Inr (gradient_accumulator self) \<longrightarrow>
        (\<exists>sd. state_dict c self = Inr sd \<and> load_state_dict c target sd = Inr self))"
proof (intro conjI impI)
  assume "''gradient_accumulator'' \<notin> dom (base_state_dict c (optimizer self))"
  then show "\<exists>sd. state_dict c self = Inr sd
         \<and> sd ''gradient_accumulator'' = Some (accumulator_state_dict c (gradient_accumulator self))
         \<and> (\<forall>k. k \<noteq> ''gradient_accumulator'' \<longrightarrow> sd k = base_state_dict c (optimizer self) k)"
    by (rule state_dict_nests)
next
  assume "''gradient_accumulator'' \<in> dom (base_state_dict c (optimizer self))"
  then show "\<exists>msg. state_dict c self = Inl (AssertionError msg)"
    by (rule state_dict_collision)
next
  assume "\<forall>b d. ''gradient_accumulator'' \<notin> dom d \<longrightarrow> f b d = base_load_state_dict c b d"
  then show "load_state_dict (c\<lparr>base_load_state_dict := f\<rparr>) target sd' = load_state_dict c target sd'"
    by (rule load_never_shows_key)
next
  assume "''gradient_accumulator'' \<notin> dom (base_state_dict c (optimizer self))
        \<and> base_load_state_dict c (optimizer target) (base_state_dict c (optimizer self))
             = Inr (optimizer self)
        \<and> accumulator_load_state_dict c (gradient_accumulator target)
             (accumulator_state_dict c (gradient_accumulator self))
             = Inr (gradient_accumulator self)"
  then show "\<exists>sd. state_dict c self = Inr sd \<and> load_state_dict c target sd = Inr self"
    using round_trip [of c self target] by blast
qed

text \<open>
  An instance: the base optimizer's state is its state dict, the accumulator's state is one
  number, and each load replaces the state by what it is given.
\<close>

theorem state_dict_round_trip_witness:
  "''gradient_accumulator'' \<notin> dom (base_state_dict
        \<lparr>base_state_dict = (\<lambda>b. b), base_load_state_dict = (\<lambda>b d. Inr d),
         accumulator_state_dict = (\<lambda>a. a), accumulator_load_state_dict = (\<lambda>a v. Inr v)\<rparr>
        (optimizer \<lparr>optimizer = [''step'' \<mapsto> 3::nat], gradient_accumulator = 7::nat\<rparr>))
   \<and> (\<exists>sd. state_dict
        \<lparr>base_state_dict = (\<lambda>b. b), base_load_state_dict = (\<lambda>b d. Inr d),
         accumulator_state_dict = (\<lambda>a. a), accumulator_load_state_dict = (\<lambda>a v. Inr v)\<rparr>
        \<lparr>optimizer = [''step'' \<mapsto> 3::nat], gradient_accumulator = 7::nat\<rparr> = Inr sd
      \<and> sd ''gradient_accumulator'' = Some 7 \<and> sd ''step'' = Some 3
      \<and> load_state_dict
        \<lparr>base_state_dict = (\<lambda>b. b), base_load_state_dict = (\<lambda>b d. Inr d),
         accumulator_state_dict = (\<lambda>a. a), accumulator_load_state_dict = (\<lambda>a v. Inr v)\<rparr>
        \<lparr>optimizer = Map.empty, gradient_accumulator = 0\<rparr> sd
        = Inr \<lparr>optimizer = [''step'' \<mapsto> 3::nat], gradient_accumulator = 7::nat\<rparr>)"
proof -
  let ?c = "\<lparr>base_state_dict = (\<lambda>b :: nat state_dict. b), base_load_state_dict = (\<lambda>b d. Inr d),
         accumulator_state_dict = (\<lambda>a :: nat. a), accumulator_load_state_dict = (\<lambda>a v. Inr v)\<rparr>"
  let ?self = "\<lparr>optimizer = [''step'' \<mapsto> 3::nat], gradient_accumulator = 7::nat\<rparr>"
  let ?target = "\<lparr>optimizer = (Map.empty :: nat state_dict), gradient_accumulator = 0::nat\<rparr>"
  have h: "''gradient_accumulator'' \<notin> dom (base_state_dict ?c (optimizer ?self))" by simp
  have h2: "base_load_state_dict ?c (optimizer ?target) (base_state_dict ?c (optimizer ?self))
             = Inr (optimizer ?self)" by simp
  have h3: "accumulator_load_state_dict ?c (gradient_accumulator ?target)
             (accumulator_state_dict ?c (gradient_accumulator ?self))
             = Inr (gradient_accumulator ?self)" by simp
  note t = state_dict_round_trip [of ?c ?self "\<lambda>b d. Inr d" ?target Map.empty]
  from t h obtain sd where sd: "state_dict ?c ?self = Inr sd"
    "sd ''gradient_accumulator'' = Some 7" "sd ''step'' = Some 3"
    by auto
  from t h h2 h3 obtain sd2 where sd2: "state_dict ?c ?self = Inr sd2"
    "load_state_dict ?c ?target sd2 = Inr ?self"
    by blast
  from sd sd2 have "sd2 = sd" by simp
  with sd sd2 h show ?thesis by blast
qed

section \<open>Proofs: building the groups of a valid configuration\<close>

lemma group_of_barrier [simp]: "group_of (barrier g s) row h = group_of s row h"
  by (simp add: group_of_def barrier_def)

lemma registry_inv_barrier [simp]: "registry_inv base reg (barrier g s) = registry_inv base reg s"
  by (simp add: registry_inv_def barrier_def)

lemma groups_barrier [simp]: "groups (barrier g s) = groups s"
  by (simp add: barrier_def)

lemma init_parallel_groups_valid:
  assumes w: "world_pg self = Some w"
    and sz: "tensor_parallel_size self = int tp" "data_parallel_size self = int dp"
      "pipeline_parallel_size self = int pp"
    and ws: "WORLD_SIZE env = pp * dp * tp"
    and rk: "RANK env < WORLD_SIZE env"
  shows "\<exists>self' s' gt gd gp.
      init_parallel_groups self env s = (Inr self', s')
    \<and> private_groups self' = private_groups self
    \<and> world_rank_matrix self' = Some \<lparr>shape3 = (pp, dp, tp), flat3 = [0..<pp * dp * tp]\<rparr>
    \<and> registry_inv (length (groups s)) (world_ranks_to_pg self') s'
    \<and> (\<exists>new. groups s' = groups s @ new)
    \<and> tp_pg self' = Some gt \<and> gt < length (groups s') \<and> RANK env \<in> set (groups s' ! gt)
    \<and> length (groups s' ! gt) = tp \<and> distinct (groups s' ! gt)
    \<and> dp_pg self' = Some gd \<and> gd < length (groups s') \<and> RANK env \<in> set (groups s' ! gd)
    \<and> length (groups s' ! gd) = dp \<and> distinct (groups s' ! gd)
    \<and> pp_pg self' = Some gp \<and> gp < length (groups s') \<and> RANK env \<in> set (groups s' ! gp)
    \<and> length (groups s' ! gp) = pp \<and> distinct (groups s' ! gp)"
proof -
  let ?rank = "RANK env"
  let ?ranks = "\<lparr>shape3 = (pp, dp, tp), flat3 = [0..<pp * dp * tp]\<rparr>"
  let ?rows_tp = "map (\<lambda>r. map (\<lambda>k. r * tp + k) [0..<tp]) [0..<pp * dp]"
  let ?rows_dp = "map (\<lambda>r. map (\<lambda>k. ((r div tp) * dp + k) * tp + r mod tp) [0..<dp]) [0..<pp * tp]"
  let ?rows_pp = "map (\<lambda>r. map (\<lambda>k. (k * dp + r mod dp) * tp + r div dp) [0..<pp]) [0..<tp * dp]"
  let ?s0 = "barrier (Some w) s"
  let ?base = "length (groups s)"
  have rank: "?rank < pp * dp * tp" using rk ws by simp
  have inv0: "registry_inv ?base [] ?s0" by (simp add: registry_inv_empty)
  obtain reg1 s1 pt where l1: "axis_loop ?rank ?rows_tp ([], ?s0) = (reg1, s1, pt)"
    by (cases "axis_loop ?rank ?rows_tp ([], ?s0)")
  then have f1: "fold (axis_step ?rank) ?rows_tp ([], ?s0, None) = (reg1, s1, pt)"
    by (simp add: axis_loop_def)
  note a1 = axis_fold [OF inv0 f1]
  from a1 rank_in_tp_row [OF rank] obtain row_t gt where
    t: "row_t \<in> set ?rows_tp" "?rank \<in> set row_t" "pt = Some gt" "group_of s1 row_t gt"
    by (simp only: if_True) blast
  from a1 have inv1: "registry_inv ?base reg1 s1" by simp
  obtain reg2 s2 pd where l2: "axis_loop ?rank ?rows_dp (reg1, s1) = (reg2, s2, pd)"
    by (cases "axis_loop ?rank ?rows_dp (reg1, s1)")
  then have f2: "fold (axis_step ?rank) ?rows_dp (reg1, s1, None) = (reg2, s2, pd)"
    by (simp add: axis_loop_def)
  note a2 = axis_fold [OF inv1 f2]
  from a2 rank_in_dp_row [OF rank] obtain row_d gd where
    d: "row_d \<in> set ?rows_dp" "?rank \<in> set row_d" "pd = Some gd" "group_of s2 row_d gd"
    by (simp only: if_True) blast
  from a2 have inv2: "registry_inv ?base reg2 s2" by simp
  obtain reg3 s3 pq where l3: "axis_loop ?rank ?rows_pp (reg2, s2) = (reg3, s3, pq)"
    by (cases "axis_loop ?rank ?rows_pp (reg2, s2)")
  then have f3: "fold (axis_step ?rank) ?rows_pp (reg2, s2, None) = (reg3, s3, pq)"
    by (simp add: axis_loop_def)
  note a3 = axis_fold [OF inv2 f3]
  from a3 rank_in_pp_row [OF rank] obtain row_p gp where
    p: "row_p \<in> set ?rows_pp" "?rank \<in> set row_p" "pq = Some gp" "group_of s3 row_p gp"
    by (simp only: if_True) blast
  from a3 have inv3: "registry_inv ?base reg3 s3" by simp
  obtain reg4 s4 where l4: "fold model_step (map (slice_axis1 ?ranks) [0..<dp]) (reg3, s3) = (reg4, s4)"
    by (cases "fold model_step (map (slice_axis1 ?ranks) [0..<dp]) (reg3, s3)")
  note a4 = model_fold [OF inv3 l4]
  from a1 a2 a3 a4 obtain n1 n2 n3 n4 where
    n: "groups s1 = groups s @ n1" "groups s2 = groups s1 @ n2" "groups s3 = groups s2 @ n3"
       "groups s4 = groups s3 @ n4"
    by auto
  have gt: "group_of s4 row_t gt"
    using t(4) n(2,3,4) by (intro group_of_mono [where s' = s4 and s = s1]) simp_all
  have gd: "group_of s4 row_d gd"
    using d(4) n(3,4) by (intro group_of_mono [where s' = s4 and s = s2]) simp_all
  have gp: "group_of s4 row_p gp"
    using p(4) n(4) by (intro group_of_mono [where s' = s4 and s = s3]) simp_all
  have shape_t: "length row_t = tp \<and> distinct row_t" using tp_rows_shape t(1) by blast
  have shape_d: "length row_d = dp \<and> distinct row_d" using dp_rows_shape d(1) by blast
  have shape_p: "length row_p = pp \<and> distinct row_p" using pp_rows_shape p(1) by blast
  note mt = group_of_members [OF gt t(2) conjunct2 [OF shape_t]]
    and md = group_of_members [OF gd d(2) conjunct2 [OF shape_d]]
    and mp = group_of_members [OF gp p(2) conjunct2 [OF shape_p]]
  let ?self' = "self\<lparr>tp_pg := Some gt, dp_pg := Some gd, pp_pg := Some gp,
                     world_rank_matrix := Some ?ranks, world_ranks_to_pg := reg4\<rparr>"
  have res: "init_parallel_groups self env s = (Inr ?self', barrier None s4)"
    unfolding init_parallel_groups_def
    by (simp add: w sz ws Let_def raising_def reshape3_arange rows_tp rows_dp rows_pp
          l1 l2 l3 l4 t(3) d(3) p(3))
  have "\<exists>new. groups (barrier None s4) = groups s @ new" using n by simp
  moreover have "registry_inv ?base (world_ranks_to_pg ?self') (barrier None s4)"
    using a4 by simp
  moreover have "gt < length (groups s4)" "gd < length (groups s4)" "gp < length (groups s4)"
    using gt gd gp by (simp_all add: group_of_def)
  ultimately have "init_parallel_groups self env s = (Inr ?self', barrier None s4)
    \<and> private_groups ?self' = private_groups self
    \<and> world_rank_matrix ?self' = Some \<lparr>shape3 = (pp, dp, tp), flat3 = [0..<pp * dp * tp]\<rparr>
    \<and> registry_inv (length (groups s)) (world_ranks_to_pg ?self') (barrier None s4)
    \<and> (\<exists>new. groups (barrier None s4) = groups s @ new)
    \<and> tp_pg ?self' = Some gt \<and> gt < length (groups (barrier None s4))
    \<and> RANK env \<in> set (groups (barrier None s4) ! gt)
    \<and> length (groups (barrier None s4) ! gt) = tp \<and> distinct (groups (barrier None s4) ! gt)
    \<and> dp_pg ?self' = Some gd \<and> gd < length (groups (barrier None s4))
    \<and> RANK env \<in> set (groups (barrier None s4) ! gd)
    \<and> length (groups (barrier None s4) ! gd) = dp \<and> distinct (groups (barrier None s4) ! gd)
    \<and> pp_pg ?self' = Some gp \<and> gp < length (groups (barrier None s4))
    \<and> RANK env \<in> set (groups (barrier None s4) ! gp)
    \<and> length (groups (barrier None s4) ! gp) = pp \<and> distinct (groups (barrier None s4) ! gp)"
    using res mt md mp shape_t shape_d shape_p t(2) d(2) p(2) by simp
  then show ?thesis by blast
qed

lemma ParallelContext_init_valid:
  assumes ws: "WORLD_SIZE env = pp * dp * tp"
    and rk: "RANK env < WORLD_SIZE env"
    and av: "available s" "\<not> initialized s"
  shows "\<exists>self s' gt gd gp.
      ParallelContext_init (int tp) (int pp) (int dp) ''nccl'' env s = (Inr self, s')
    \<and> private_groups self = []
    \<and> world_pg self = Some (length (groups s))
    \<and> groups s' ! length (groups s) = [0..<WORLD_SIZE env]
    \<and> world_rank_matrix self = Some \<lparr>shape3 = (pp, dp, tp), flat3 = [0..<pp * dp * tp]\<rparr>
    \<and> registry_inv (Suc (length (groups s))) (world_ranks_to_pg self) s'
    \<and> tp_pg self = Some gt \<and> gt < length (groups s') \<and> RANK env \<in> set (groups s' ! gt)
    \<and> length (groups s' ! gt) = tp \<and> distinct (groups s' ! gt)
    \<and> dp_pg self = Some gd \<and> gd < length (groups s') \<and> RANK env \<in> set (groups s' ! gd)
    \<and> length (groups s' ! gd) = dp \<and> distinct (groups s' ! gd)
    \<and> pp_pg self = Some gp \<and> gp < length (groups s') \<and> RANK env \<in> set (groups s' ! gp)
    \<and> length (groups s' ! gp) = pp \<and> distinct (groups s' ! gp)"
proof -
  have pos: "0 < pp" "0 < dp" "0 < tp"
    using rk ws by (cases pp; cases dp; cases tp; simp)+
  have m1: "int (WORLD_SIZE env) mod int dp = 0"
    unfolding ws by (simp flip: of_nat_mult of_nat_mod)
  have m2: "int (WORLD_SIZE env) mod (int tp * int pp) = 0"
  proof -
    have "pp * dp * tp = dp * (tp * pp)" by (simp add: ac_simps)
    then show ?thesis unfolding ws by (simp flip: of_nat_mult of_nat_mod)
  qed
  have m3: "int tp * int dp * int pp = int (WORLD_SIZE env)"
    unfolding ws by (simp add: ac_simps)
  have ok: "\<not> (int dp = 0 \<or> int tp * int pp = 0 \<or> int (WORLD_SIZE env) mod int dp \<noteq> 0
         \<or> int (WORLD_SIZE env) mod (int tp * int pp) \<noteq> 0
         \<or> int tp * int dp * int pp \<noteq> int (WORLD_SIZE env))"
    using pos m1 m2 m3 by simp
  let ?self0 = "\<lparr>tensor_parallel_size = int tp, pipeline_parallel_size = int pp,
                 data_parallel_size = int dp,
                 private_groups = [], world_pg = None, tp_pg = None, dp_pg = None,
                 pp_pg = None, world_rank_matrix = None, world_ranks_to_pg = []\<rparr>"
  let ?s1 = "set_device env s"
  let ?s2 = "(init_process_group (RANK env) (WORLD_SIZE env) ?s1)
               \<lparr>groups := groups s @ [[0..<WORLD_SIZE env]]\<rparr>"
  let ?self2 = "?self0\<lparr>world_pg := Some (length (groups s))\<rparr>"
  have g: "init_global_dist ?self0 (RANK env) (WORLD_SIZE env) ''nccl'' ?s1 = (Inr ?self2, ?s2)"
    by (simp add: init_global_dist_def Let_def new_group_def init_process_group_def set_device_def)
  have ni: "\<not> initialized ?s1" using av by (simp add: set_device_def)
  have len2: "length (groups ?s2) = Suc (length (groups s))" by simp
  from init_parallel_groups_valid [of ?self2 "length (groups s)" tp dp pp env ?s2] ws rk
  obtain self' s' gt gd gp where r:
    "init_parallel_groups ?self2 env ?s2 = (Inr self', s')"
    "private_groups self' = private_groups ?self2"
    "world_rank_matrix self' = Some \<lparr>shape3 = (pp, dp, tp), flat3 = [0..<pp * dp * tp]\<rparr>"
    "registry_inv (length (groups ?s2)) (world_ranks_to_pg self') s'"
    "\<exists>new. groups s' = groups ?s2 @ new"
    "tp_pg self' = Some gt" "gt < length (groups s')" "RANK env \<in> set (groups s' ! gt)"
    "length (groups s' ! gt) = tp" "distinct (groups s' ! gt)"
    "dp_pg self' = Some gd" "gd < length (groups s')" "RANK env \<in> set (groups s' ! gd)"
    "length (groups s' ! gd) = dp" "distinct (groups s' ! gd)"
    "pp_pg self' = Some gp" "gp < length (groups s')" "RANK env \<in> set (groups s' ! gp)"
    "length (groups s' ! gp) = pp" "distinct (groups s' ! gp)"
    by (simp only: ParallelContext.simps) blast
  have wp: "world_pg self' = Some (length (groups s))"
    using init_parallel_groups_world_pg [OF r(1)] by simp
  have res: "ParallelContext_init (int tp) (int pp) (int dp) ''nccl'' env s = (Inr self', barrier None s')"
    unfolding init_rest [OF ok] using av ni g r(1) by (simp add: Let_def)
  from r(5) obtain new where "groups s' = groups ?s2 @ new" by blast
  then have world: "groups (barrier None s') ! length (groups s) = [0..<WORLD_SIZE env]"
    by (simp add: nth_append)
  have "ParallelContext_init (int tp) (int pp) (int dp) ''nccl'' env s = (Inr self', barrier None s')
    \<and> private_groups self' = []
    \<and> world_pg self' = Some (length (groups s))
    \<and> groups (barrier None s') ! length (groups s) = [0..<WORLD_SIZE env]
    \<and> world_rank_matrix self' = Some \<lparr>shape3 = (pp, dp, tp), flat3 = [0..<pp * dp * tp]\<rparr>
    \<and> registry_inv (Suc (length (groups s))) (world_ranks_to_pg self') (barrier None s')
    \<and> tp_pg self' = Some gt \<and> gt < length (groups (barrier None s'))
    \<and> RANK env \<in> set (groups (barrier None s') ! gt)
    \<and> length (groups (barrier None s') ! gt) = tp \<and> distinct (groups (barrier None s') ! gt)
    \<and> dp_pg self' = Some gd \<and> gd < length (groups (barrier None s'))
    \<and> RANK env \<in> set (groups (barrier None s') ! gd)
    \<and> length (groups (barrier None s') ! gd) = dp \<and> distinct (groups (barrier None s') ! gd)
    \<and> pp_pg self' = Some gp \<and> gp < length (groups (barrier None s'))
    \<and> RANK env \<in> set (groups (barrier None s') ! gp)
    \<and> length (groups (barrier None s') ! gp) = pp \<and> distinct (groups (barrier None s') ! gp)"
    using res r(2-4,6-20) wp world len2 by simp
  then show ?thesis by blast
qed

section \<open>The topology claims\<close>

text \<open>
  C1. For every configuration with \<open>tp * dp * pp = world_size\<close>, arranging the ranks
  \<open>0..world_size-1\<close> row-major into shape \<open>(pp, dp, tp)\<close> makes the map from a rank to its
  coordinate a bijection, given by \<open>pp_rank = (rank // (tp * dp)) % pp\<close>,
  \<open>dp_rank = (rank // tp) % dp\<close>, \<open>tp_rank = rank % tp\<close>: the array holds the rank at that
  position. Construction on any rank succeeds and that rank's tensor, data and pipeline
  groups contain the rank and have exactly \<open>tp\<close>, \<open>dp\<close> and \<open>pp\<close> distinct members. With
  sizes 2, 2, 2, rank 5 is at \<open>(pipeline 1, data 0, tensor 1)\<close>.
\<close>

theorem rank_coordinates_and_groups:
  assumes "tp * dp * pp = world_size"
  shows "bij_betw (coordinate tp dp pp) {0..<world_size} ({0..<pp} \<times> {0..<dp} \<times> {0..<tp})
   \<and> (\<forall>rank < world_size. \<exists>p d t.
         coordinate tp dp pp rank = (p, d, t) \<and> p < pp \<and> d < dp \<and> t < tp
       \<and> reshape3 (arange world_size) (pp, dp, tp)
            = Inr \<lparr>shape3 = (pp, dp, tp), flat3 = arange world_size\<rparr>
       \<and> item3 \<lparr>shape3 = (pp, dp, tp), flat3 = arange world_size\<rparr> p d t = rank)
   \<and> (\<forall>rank < world_size. \<forall>s local_rank. available s \<and> \<not> initialized s \<longrightarrow>
        (\<exists>self s' gt gd gp.
           ParallelContext_init (int tp) (int pp) (int dp) ''nccl''
             \<lparr>RANK = rank, WORLD_SIZE = world_size, LOCAL_RANK = local_rank\<rparr> s = (Inr self, s')
         \<and> world_rank_matrix self = Some \<lparr>shape3 = (pp, dp, tp), flat3 = arange world_size\<rparr>
         \<and> tp_pg self = Some gt \<and> gt < length (groups s') \<and> rank \<in> set (groups s' ! gt)
         \<and> length (groups s' ! gt) = tp \<and> distinct (groups s' ! gt)
         \<and> dp_pg self = Some gd \<and> gd < length (groups s') \<and> rank \<in> set (groups s' ! gd)
         \<and> length (groups s' ! gd) = dp \<and> distinct (groups s' ! gd)
         \<and> pp_pg self = Some gp \<and> gp < length (groups s') \<and> rank \<in> set (groups s' ! gp)
         \<and> length (groups s' ! gp) = pp \<and> distinct (groups s' ! gp)))
   \<and> coordinate 2 2 2 5 = (1, 0, 1)
   \<and> item3 \<lparr>shape3 = (2, 2, 2), flat3 = arange 8\<rparr> 1 0 1 = 5"
proof -
  have ws: "world_size = pp * dp * tp" using assms by (simp add: ac_simps)
  have bij: "bij_betw (coordinate tp dp pp) {0..<world_size} ({0..<pp} \<times> {0..<dp} \<times> {0..<tp})"
    using ws by (intro coordinate_bij) simp
  have coords: "\<forall>rank < world_size. \<exists>p d t.
         coordinate tp dp pp rank = (p, d, t) \<and> p < pp \<and> d < dp \<and> t < tp
       \<and> reshape3 (arange world_size) (pp, dp, tp)
            = Inr \<lparr>shape3 = (pp, dp, tp), flat3 = arange world_size\<rparr>
       \<and> item3 \<lparr>shape3 = (pp, dp, tp), flat3 = arange world_size\<rparr> p d t = rank"
  proof (intro allI impI)
    fix rank assume "rank < world_size"
    then have r: "rank < pp * dp * tp" using ws by simp
    then obtain p d t where c: "coordinate tp dp pp rank = (p, d, t)" "p < pp" "d < dp" "t < tp"
      "rank = (p * dp + d) * tp + t"
      by (rule coordinate_decompose)
    have pos: "0 < tp" "0 < dp" "0 < pp" using c(2-4) by simp_all
    have i: "item3 \<lparr>shape3 = (pp, dp, tp), flat3 = arange world_size\<rparr> p d t = rank"
      unfolding arange_def ws using item3_ranks [OF c(2-4)] c(5) by simp
    have s: "reshape3 (arange world_size) (pp, dp, tp)
            = Inr \<lparr>shape3 = (pp, dp, tp), flat3 = arange world_size\<rparr>"
      using ws by (simp add: reshape3_def arange_def)
    from c(1-4) s i show "\<exists>p d t.
         coordinate tp dp pp rank = (p, d, t) \<and> p < pp \<and> d < dp \<and> t < tp
       \<and> reshape3 (arange world_size) (pp, dp, tp)
            = Inr \<lparr>shape3 = (pp, dp, tp), flat3 = arange world_size\<rparr>
       \<and> item3 \<lparr>shape3 = (pp, dp, tp), flat3 = arange world_size\<rparr> p d t = rank"
      by blast
  qed
  have build: "\<forall>rank < world_size. \<forall>s local_rank. available s \<and> \<not> initialized s \<longrightarrow>
        (\<exists>self s' gt gd gp.
           ParallelContext_init (int tp) (int pp) (int dp) ''nccl''
             \<lparr>RANK = rank, WORLD_SIZE = world_size, LOCAL_RANK = local_rank\<rparr> s = (Inr self, s')
         \<and> world_rank_matrix self = Some \<lparr>shape3 = (pp, dp, tp), flat3 = arange world_size\<rparr>
         \<and> tp_pg self = Some gt \<and> gt < length (groups s') \<and> rank \<in> set (groups s' ! gt)
         \<and> length (groups s' ! gt) = tp \<and> distinct (groups s' ! gt)
         \<and> dp_pg self = Some gd \<and> gd < length (groups s') \<and> rank \<in> set (groups s' ! gd)
         \<and> length (groups s' ! gd) = dp \<and> distinct (groups s' ! gd)
         \<and> pp_pg self = Some gp \<and> gp < length (groups s') \<and> rank \<in> set (groups s' ! gp)
         \<and> length (groups s' ! gp) = pp \<and> distinct (groups s' ! gp))"
  proof (intro allI impI)
    fix rank local_rank and s :: dist_state
    assume r: "rank < world_size" and a: "available s \<and> \<not> initialized s"
    let ?env = "\<lparr>RANK = rank, WORLD_SIZE = world_size, LOCAL_RANK = local_rank\<rparr>"
    have "WORLD_SIZE ?env = pp * dp * tp" "RANK ?env < WORLD_SIZE ?env" using ws r by simp_all
    from ParallelContext_init_valid [OF this, of s] a
    show "\<exists>self s' gt gd gp.
           ParallelContext_init (int tp) (int pp) (int dp) ''nccl'' ?env s = (Inr self, s')
         \<and> world_rank_matrix self = Some \<lparr>shape3 = (pp, dp, tp), flat3 = arange world_size\<rparr>
         \<and> tp_pg self = Some gt \<and> gt < length (groups s') \<and> rank \<in> set (groups s' ! gt)
         \<and> length (groups s' ! gt) = tp \<and> distinct (groups s' ! gt)
         \<and> dp_pg self = Some gd \<and> gd < length (groups s') \<and> rank \<in> set (groups s' ! gd)
         \<and> length (groups s' ! gd) = dp \<and> distinct (groups s' ! gd)
         \<and> pp_pg self = Some gp \<and> gp < length (groups s') \<and> rank \<in> set (groups s' ! gp)
         \<and> length (groups s' ! gp) = pp \<and> distinct (groups s' ! gp)"
      unfolding arange_def ws by (simp only: environ.simps) blast
  qed
  have five: "coordinate 2 2 2 5 = (1, 0, 1)"
    by (simp add: coordinate_def)
  have at: "item3 \<lparr>shape3 = (2, 2, 2), flat3 = arange 8\<rparr> 1 0 1 = 5"
    by (simp add: item3_def arange_def)
  from bij coords build five at show ?thesis by (intro conjI)
qed

theorem rank_coordinates_and_groups_witness:
  "(2::nat) * 2 * 2 = 8
   \<and> bij_betw (coordinate 2 2 2) {0..<8} ({0..<2} \<times> {0..<2} \<times> {0..<2})
   \<and> coordinate 2 2 2 5 = (1, 0, 1)
   \<and> item3 \<lparr>shape3 = (2, 2, 2), flat3 = arange 8\<rparr> 1 0 1 = 5
   \<and> (\<exists>self s' gt gd gp.
         ParallelContext_init 2 2 2 ''nccl'' \<lparr>RANK = 5, WORLD_SIZE = 8, LOCAL_RANK = 5\<rparr>
           \<lparr>available = True, initialized = False, groups = [], trace = []\<rparr> = (Inr self, s')
       \<and> tp_pg self = Some gt \<and> 5 \<in> set (groups s' ! gt) \<and> length (groups s' ! gt) = 2
       \<and> dp_pg self = Some gd \<and> 5 \<in> set (groups s' ! gd) \<and> length (groups s' ! gd) = 2
       \<and> pp_pg self = Some gp \<and> 5 \<in> set (groups s' ! gp) \<and> length (groups s' ! gp) = 2)"
proof -
  have h: "(2::nat) * 2 * 2 = 8" by simp
  note t = rank_coordinates_and_groups [OF h]
  have five: "(5::nat) < 8" by simp
  let ?s = "\<lparr>available = True, initialized = False, groups = [], trace = []\<rparr>"
  have fresh: "available ?s \<and> \<not> initialized ?s" by simp
  have c: "coordinate 2 2 2 5 = (1, 0, 1)" by (simp add: coordinate_def)
  have i: "item3 \<lparr>shape3 = (2, 2, 2), flat3 = arange 8\<rparr> 1 0 1 = 5"
    using t [THEN conjunct2, THEN conjunct1, rule_format, OF five] c by auto
  from t [THEN conjunct2, THEN conjunct2, THEN conjunct1, rule_format, OF five fresh, of 5]
  have b: "\<exists>self s' gt gd gp.
         ParallelContext_init 2 2 2 ''nccl'' \<lparr>RANK = 5, WORLD_SIZE = 8, LOCAL_RANK = 5\<rparr> ?s
           = (Inr self, s')
       \<and> tp_pg self = Some gt \<and> 5 \<in> set (groups s' ! gt) \<and> length (groups s' ! gt) = 2
       \<and> dp_pg self = Some gd \<and> 5 \<in> set (groups s' ! gd) \<and> length (groups s' ! gd) = 2
       \<and> pp_pg self = Some gp \<and> 5 \<in> set (groups s' ! gp) \<and> length (groups s' ! gp) = 2"
    by simp blast
  from h t [THEN conjunct1] c i b show ?thesis by (intro conjI)
qed

lemma axis_loop_inv:
  assumes "registry_inv base reg s"
  shows "registry_inv base (fst (axis_loop rank rows (reg, s))) (fst (snd (axis_loop rank rows (reg, s))))"
proof -
  obtain reg' s' pg' where f: "fold (axis_step rank) rows (reg, s, None) = (reg', s', pg')"
    by (cases "fold (axis_step rank) rows (reg, s, None)")
  from axis_fold [OF assms f] f show ?thesis by (simp add: axis_loop_def)
qed

text \<open>
  C3. Throughout group construction the registry keeps its invariant: each sorted
  member-rank tuple is registered at most once and stands for one group of the runtime
  with exactly those members, and every group created is registered. It holds for the
  empty registry, every lookup-or-create step and every axis loop preserves it, a step
  that meets a registered tuple returns the registered group and creates nothing, a step
  that meets a new tuple creates and registers exactly one group, and the registry of a
  constructed context satisfies it.
\<close>

theorem registry_deduplicates:
  "registry_inv (length (groups s)) [] s
   \<and> (registry_inv base reg s \<longrightarrow>
        (\<exists>g reg' s'. get_or_create_group ranks (reg, s) = (g, reg', s')
           \<and> registry_inv base reg' s' \<and> group_of s' ranks g))
   \<and> (registry_inv base reg s \<longrightarrow>
        registry_inv base (fst (axis_loop rank rows (reg, s)))
                          (fst (snd (axis_loop rank rows (reg, s)))))
   \<and> (map_of reg (sort ranks) = Some g \<longrightarrow> get_or_create_group ranks (reg, s) = (g, reg, s))
   \<and> (map_of reg (sort ranks) = None \<longrightarrow>
        get_or_create_group ranks (reg, s)
          = (length (groups s), reg @ [(sort ranks, length (groups s))],
             s\<lparr>groups := groups s @ [ranks]\<rparr>))
   \<and> (tp * dp * pp = world_size \<and> rank < world_size \<and> available s \<and> \<not> initialized s \<longrightarrow>
        (\<exists>self s'.
           ParallelContext_init (int tp) (int pp) (int dp) ''nccl''
             \<lparr>RANK = rank, WORLD_SIZE = world_size, LOCAL_RANK = local_rank\<rparr> s = (Inr self, s')
         \<and> registry_inv (Suc (length (groups s))) (world_ranks_to_pg self) s'))"
proof (intro conjI impI)
  show "registry_inv (length (groups s)) [] s" by (rule registry_inv_empty)
next
  assume inv: "registry_inv base reg s"
  obtain g reg' s' where c: "get_or_create_group ranks (reg, s) = (g, reg', s')"
    by (cases "get_or_create_group ranks (reg, s)")
  from get_or_create_group_step [OF inv c] c
  show "\<exists>g reg' s'. get_or_create_group ranks (reg, s) = (g, reg', s')
           \<and> registry_inv base reg' s' \<and> group_of s' ranks g"
    by blast
next
  assume "registry_inv base reg s"
  then show "registry_inv base (fst (axis_loop rank rows (reg, s)))
                          (fst (snd (axis_loop rank rows (reg, s))))"
    by (rule axis_loop_inv)
next
  assume "map_of reg (sort ranks) = Some g"
  then show "get_or_create_group ranks (reg, s) = (g, reg, s)"
    by (rule get_or_create_group_reuse)
next
  assume "map_of reg (sort ranks) = None"
  then show "get_or_create_group ranks (reg, s)
          = (length (groups s), reg @ [(sort ranks, length (groups s))],
             s\<lparr>groups := groups s @ [ranks]\<rparr>)"
    by (rule get_or_create_group_new)
next
  assume a: "tp * dp * pp = world_size \<and> rank < world_size \<and> available s \<and> \<not> initialized s"
  let ?env = "\<lparr>RANK = rank, WORLD_SIZE = world_size, LOCAL_RANK = local_rank\<rparr>"
  have "WORLD_SIZE ?env = pp * dp * tp" "RANK ?env < WORLD_SIZE ?env" "available s" "\<not> initialized s"
    using a by (simp_all add: ac_simps)
  from ParallelContext_init_valid [OF this]
  show "\<exists>self s'. ParallelContext_init (int tp) (int pp) (int dp) ''nccl'' ?env s = (Inr self, s')
         \<and> registry_inv (Suc (length (groups s))) (world_ranks_to_pg self) s'"
    by blast
qed

text \<open>
  An instance: two ranks, tensor-parallel size 2. The data and the pipeline axis both
  reach the member sets \<open>[0]\<close> and \<open>[1]\<close>, and the model-parallel loop reaches \<open>[0, 1]\<close> again:
  three groups are created for six requests.
\<close>

theorem registry_deduplicates_witness:
  "registry_inv 1 [([0, 1], 1), ([0], 2)]
      \<lparr>available = True, initialized = True, groups = [[0, 1], [0, 1], [0]], trace = []\<rparr>
   \<and> map_of [([0, 1], 1), ([0], 2 :: nat)] (sort [1, 0 :: nat]) = Some 1
   \<and> get_or_create_group [1, 0] ([([0, 1], 1), ([0], 2)],
        \<lparr>available = True, initialized = True, groups = [[0, 1], [0, 1], [0]], trace = []\<rparr>)
      = (1, [([0, 1], 1), ([0], 2)],
        \<lparr>available = True, initialized = True, groups = [[0, 1], [0, 1], [0]], trace = []\<rparr>)
   \<and> map_of [([0, 1], 1), ([0], 2 :: nat)] (sort [1 :: nat]) = None
   \<and> get_or_create_group [1] ([([0, 1], 1), ([0], 2)],
        \<lparr>available = True, initialized = True, groups = [[0, 1], [0, 1], [0]], trace = []\<rparr>)
      = (3, [([0, 1], 1), ([0], 2), ([1], 3)],
        \<lparr>available = True, initialized = True, groups = [[0, 1], [0, 1], [0], [1]], trace = []\<rparr>)
   \<and> (2::nat) * 1 * 1 = 2 \<and> (1::nat) < 2
   \<and> (\<exists>self s'.
         ParallelContext_init 2 1 1 ''nccl'' \<lparr>RANK = 1, WORLD_SIZE = 2, LOCAL_RANK = 1\<rparr>
           \<lparr>available = True, initialized = False, groups = [], trace = []\<rparr> = (Inr self, s')
       \<and> registry_inv 1 (world_ranks_to_pg self) s')
   \<and> world_ranks_to_pg (projr (fst (ParallelContext_init 2 1 1 ''nccl''
           \<lparr>RANK = 1, WORLD_SIZE = 2, LOCAL_RANK = 1\<rparr>
           \<lparr>available = True, initialized = False, groups = [], trace = []\<rparr>)))
       = [([0, 1], 1), ([0], 2), ([1], 3)]"
proof -
  let ?reg = "[([0, 1], 1), ([0], 2)] :: (nat list \<times> nat) list"
  let ?s = "\<lparr>available = True, initialized = True, groups = [[0, 1], [0, 1], [0]], trace = []\<rparr>"
  let ?f = "\<lparr>available = True, initialized = False, groups = [], trace = []\<rparr>"
  have inv: "registry_inv 1 ?reg ?s" by (simp add: registry_inv_def)
  have hit: "map_of ?reg (sort [1, 0]) = Some 1" by simp
  have miss: "map_of ?reg (sort [1]) = None" by simp
  have valid: "(2::nat) * 1 * 1 = 2 \<and> (1::nat) < 2 \<and> available ?f \<and> \<not> initialized ?f" by simp
  note t1 = registry_deduplicates [of ?s 1 ?reg "[1, 0]" 0 "[]" 1 2 1 1 2 1]
  note t2 = registry_deduplicates [of ?s 1 ?reg "[1]" 0 "[]" 1 2 1 1 2 1]
  note t3 = registry_deduplicates [of ?f 1 ?reg "[1]" 1 "[]" 1 2 1 1 2 1]
  have a: "get_or_create_group [1, 0] (?reg, ?s) = (1, ?reg, ?s)"
    using t1 [THEN conjunct2, THEN conjunct2, THEN conjunct2, THEN conjunct1, THEN mp, OF hit] .
  have b: "get_or_create_group [1] (?reg, ?s)
      = (3, [([0, 1], 1), ([0], 2), ([1], 3)],
         \<lparr>available = True, initialized = True, groups = [[0, 1], [0, 1], [0], [1]], trace = []\<rparr>)"
    using t2 [THEN conjunct2, THEN conjunct2, THEN conjunct2, THEN conjunct2, THEN conjunct1,
        THEN mp, OF miss] by simp
  have c: "\<exists>self s'.
         ParallelContext_init 2 1 1 ''nccl'' \<lparr>RANK = 1, WORLD_SIZE = 2, LOCAL_RANK = 1\<rparr> ?f
           = (Inr self, s')
       \<and> registry_inv 1 (world_ranks_to_pg self) s'"
    using t3 [THEN conjunct2, THEN conjunct2, THEN conjunct2, THEN conjunct2, THEN conjunct2,
        THEN mp, OF valid] by simp
  have d: "world_ranks_to_pg (projr (fst (ParallelContext_init 2 1 1 ''nccl''
           \<lparr>RANK = 1, WORLD_SIZE = 2, LOCAL_RANK = 1\<rparr> ?f)))
       = [([0, 1], 1), ([0], 2), ([1], 3)]"
    by (simp add: ParallelContext_init_def Let_def set_device_def init_global_dist_def
      init_process_group_def new_group_def init_parallel_groups_def barrier_def raising_def
      reshape3_def reshape2_def arange_def axis_loop_def axis_step_def get_or_create_group_def
      transpose_021_def transpose_210_def item3_def slice_axis1_def model_step_def upt_conv_Cons)
  have v1: "(2::nat) * 1 * 1 = 2" and v2: "(1::nat) < 2" by simp_all
  from inv hit a miss b v1 v2 c d show ?thesis by (intro conjI)
qed

text \<open>
  C6. \<open>destroy\<close> asserts that the global group is registered in \<open>_groups\<close>. Nothing
  registers it: the constructor leaves \<open>_groups\<close> empty, so \<open>destroy\<close> after a successful
  build raises the assertion error and performs no barrier and no release.
\<close>

theorem destroy_after_build_raises:
  assumes "ParallelContext_init tp pp dp backend env s = (Inr self, s')"
  shows "private_groups self = []
       \<and> destroy get_world_size self s'
           = (Inl (AssertionError ''Global group must be initialized before destroying.''), s')"
  using init_private_groups_empty [OF assms]
  by (simp add: destroy_def is_initialized_def)

theorem destroy_after_build_raises_witness:
  "ParallelContext_init 1 1 1 ''nccl'' \<lparr>RANK = 0, WORLD_SIZE = 1, LOCAL_RANK = 0\<rparr>
          \<lparr>available = True, initialized = False, groups = [], trace = []\<rparr>
   = (Inr \<lparr>tensor_parallel_size = 1, pipeline_parallel_size = 1, data_parallel_size = 1,
            private_groups = [], world_pg = Some 0, tp_pg = Some 1, dp_pg = Some 1, pp_pg = Some 1,
            world_rank_matrix = Some \<lparr>shape3 = (1, 1, 1), flat3 = [0]\<rparr>,
            world_ranks_to_pg = [([0], 1)]\<rparr>,
      \<lparr>available = True, initialized = True, groups = [[0], [0]],
       trace = [SetDevice 0, InitProcessGroup 0 1, Barrier (Some 0), Barrier None, Barrier None]\<rparr>)
   \<and> destroy (\<lambda>mode. Inr 1)
        \<lparr>tensor_parallel_size = 1, pipeline_parallel_size = 1, data_parallel_size = 1,
            private_groups = [], world_pg = Some 0, tp_pg = Some 1, dp_pg = Some 1, pp_pg = Some 1,
            world_rank_matrix = Some \<lparr>shape3 = (1, 1, 1), flat3 = [0]\<rparr>,
            world_ranks_to_pg = [([0], 1)]\<rparr>
        \<lparr>available = True, initialized = True, groups = [[0], [0]],
         trace = [SetDevice 0, InitProcessGroup 0 1, Barrier (Some 0), Barrier None, Barrier None]\<rparr>
     = (Inl (AssertionError ''Global group must be initialized before destroying.''),
        \<lparr>available = True, initialized = True, groups = [[0], [0]],
         trace = [SetDevice 0, InitProcessGroup 0 1, Barrier (Some 0), Barrier None, Barrier None]\<rparr>)"
proof -
  have b: "ParallelContext_init 1 1 1 ''nccl'' \<lparr>RANK = 0, WORLD_SIZE = 1, LOCAL_RANK = 0\<rparr>
          \<lparr>available = True, initialized = False, groups = [], trace = []\<rparr>
   = (Inr \<lparr>tensor_parallel_size = 1, pipeline_parallel_size = 1, data_parallel_size = 1,
            private_groups = [], world_pg = Some 0, tp_pg = Some 1, dp_pg = Some 1, pp_pg = Some 1,
            world_rank_matrix = Some \<lparr>shape3 = (1, 1, 1), flat3 = [0]\<rparr>,
            world_ranks_to_pg = [([0], 1)]\<rparr>,
      \<lparr>available = True, initialized = True, groups = [[0], [0]],
       trace = [SetDevice 0, InitProcessGroup 0 1, Barrier (Some 0), Barrier None, Barrier None]\<rparr>)"
    by (simp add: ParallelContext_init_def Let_def set_device_def init_global_dist_def
      init_process_group_def new_group_def init_parallel_groups_def barrier_def raising_def
      reshape3_def reshape2_def arange_def axis_loop_def axis_step_def get_or_create_group_def
      transpose_021_def transpose_210_def item3_def slice_axis1_def model_step_def)
  from destroy_after_build_raises [OF b, of "\<lambda>mode. Inr 1", THEN conjunct2] b
  show ?thesis by (intro conjI)
qed

section \<open>Proofs: SkipBatchSampler\<close>

lemma skip_filter_enumerate:
  "map snd (filter (\<lambda>(index, samples). int index \<ge> k) (enumerate n xs)) = drop (nat k - n) xs"
proof (induction xs arbitrary: n)
  case Nil
  then show ?case by simp
next
  case (Cons x xs)
  show ?case
  proof (cases "int n \<ge> k")
    case True
    then have "nat k - n = 0" and "nat k - Suc n = 0" by linarith+
    with True Cons.IH [of "Suc n"] show ?thesis by simp
  next
    case False
    then have "nat k - n = Suc (nat k - Suc n)" by linarith
    with False Cons.IH [of "Suc n"] show ?thesis by simp
  qed
qed

text \<open>
  C8. Wrapping a batch sampler with skip count \<open>S\<close> and data-parallel size \<open>dp_size\<close> yields
  exactly the batches of the underlying sampler from position \<open>S // dp_size\<close> onward, in
  their original order: the first \<open>S // dp_size\<close> batches are discarded.
\<close>

theorem SkipBatchSampler_skips:
  assumes "dp_size \<noteq> 0"
  shows "\<exists>s. SkipBatchSampler_init bs S dp_size = Inr s
           \<and> skip_batches s = S div dp_size
           \<and> SkipBatchSampler_iter s = drop (nat (S div dp_size)) bs
           \<and> take (nat (S div dp_size)) bs @ SkipBatchSampler_iter s = bs"
  using assms
  by (simp add: SkipBatchSampler_init_def SkipBatchSampler_iter_def skip_filter_enumerate)

theorem SkipBatchSampler_skips_witness:
  "(2::int) \<noteq> 0 \<and> (\<exists>s. SkipBatchSampler_init [''a'', ''b'', ''c'', ''d''] 5 2 = Inr s
           \<and> SkipBatchSampler_iter s = [''c'', ''d''])"
  using SkipBatchSampler_skips [of 2 "[''a'', ''b'', ''c'', ''d'']" 5]
  by auto

section \<open>Proofs: CombinedDataset\<close>

lemma cumsum_from_length [simp]: "length (cumsum_from a xs) = length xs"
  by (induction xs arbitrary: a) auto













section \<open>Proofs: get_all_comps\<close>

lemma pow2_and_pred: "((2::int) ^ k AND (2 ^ k - 1)) = 0"
proof -
  have "(mask k :: int) AND 2 ^ k = 0"
    by (simp add: and_exp_eq_0_iff_not_bit bit_mask_iff)
  then show ?thesis by (simp add: mask_eq_exp_minus_1 and.commute)
qed

lemma and_pred_pos:
  fixes m :: nat
  assumes "0 < m" "(int m AND (int m - 1)) = 0"
  shows "\<exists>k. m = 2 ^ k"
  using assms
proof (induction m rule: less_induct)
  case (less m)
  show ?case
  proof (cases "even m")
    case True
    then obtain q where q: "m = 2 * q" by (elim evenE)
    with less.prems(1) have qpos: "0 < q" by simp
    have d: "(int q * 2 - 1) div 2 = int q - 1" "(int q * 2 - 1) mod 2 = 1" by presburger+
    have "int m AND (int m - 1) = 2 * (int q AND (int q - 1))"
      unfolding q using qpos
      by (subst and_int_unfold) (simp add: algebra_simps d)
    with less.prems(2) have "(int q AND (int q - 1)) = 0" by simp
    moreover have "q < m" using q qpos by simp
    ultimately obtain k where "q = 2 ^ k" using less.IH qpos by blast
    then have "m = 2 ^ Suc k" using q by simp
    then show ?thesis by blast
  next
    case False
    then obtain q where q: "m = 2 * q + 1" by (elim oddE)
    show ?thesis
    proof (cases "q = 0")
      case True
      then have "m = 2 ^ 0" using q by simp
      then show ?thesis by blast
    next
      case F: False
      have "int m AND (int m - 1) = 2 * (int q AND int q)"
        unfolding q using F
        by (subst and_int_unfold) (simp add: algebra_simps)
      with less.prems(2) F show ?thesis by simp
    qed
  qed
qed

lemma power_of_two_check:
  "((n AND (n - 1)) = 0 \<and> n \<noteq> 0) \<longleftrightarrow> (\<exists>k. n = (2::int) ^ k)"
proof
  assume a: "(n AND (n - 1)) = 0 \<and> n \<noteq> 0"
  have "\<not> n < 0"
  proof
    assume "n < 0"
    then have "n AND (n - 1) < 0" by simp
    with a show False by simp
  qed
  with a have pos: "0 < nat n" and n: "n = int (nat n)" by simp_all
  from a n have "(int (nat n) AND (int (nat n) - 1)) = 0" by simp
  from and_pred_pos [OF pos this] obtain k where "nat n = 2 ^ k" by blast
  with n have "n = 2 ^ k" by simp
  then show "\<exists>k. n = 2 ^ k" by blast
next
  assume "\<exists>k. n = 2 ^ k"
  then obtain k where "n = 2 ^ k" by blast
  then show "(n AND (n - 1)) = 0 \<and> n \<noteq> 0" by (simp add: pow2_and_pred)
qed

lemma mset_map_upt_sum: "mset (map f [0..<n]) = (\<Sum>i<n. {#f i#})"
  by (induction n) simp_all

lemma mset_concat_map_upt: "mset (concat (map g [0..<n])) = (\<Sum>i<n. mset (g i))"
  by (induction n) simp_all

lemma mset_flatten_T:
  assumes "list_all (\<lambda>row. length row = d) rows"
  shows "mset (flatten_T d rows) = mset (concat rows)"
proof -
  let ?m = "length rows"
  have row: "rows ! i = map (\<lambda>j. rows ! i ! j) [0..<d]" if "i < ?m" for i
  proof -
    have "length (rows ! i) = d" using assms that by (simp add: list_all_length)
    then show ?thesis by (metis map_nth)
  qed
  have "mset (concat rows) = mset (concat (map (\<lambda>i. rows ! i) [0..<?m]))"
    by (simp add: map_nth)
  also have "\<dots> = (\<Sum>i<?m. mset (rows ! i))" by (rule mset_concat_map_upt)
  also have "\<dots> = (\<Sum>i<?m. mset (map (\<lambda>j. rows ! i ! j) [0..<d]))"
    using row by (intro sum.cong refl) simp
  also have "\<dots> = (\<Sum>i<?m. \<Sum>j<d. {#rows ! i ! j#})"
    by (simp only: mset_map_upt_sum)
  also have "\<dots> = (\<Sum>j<d. \<Sum>i<?m. {#rows ! i ! j#})" by (rule sum.swap)
  also have "\<dots> = (\<Sum>j<d. mset (map (\<lambda>i. rows ! i ! j) [0..<?m]))"
    by (simp only: mset_map_upt_sum)
  also have "\<dots> = mset (flatten_T d rows)"
    unfolding flatten_T_def by (rule mset_concat_map_upt [symmetric])
  finally show ?thesis by simp
qed

lemma length_flatten_T: "length (flatten_T d rows) = d * length rows"
  unfolding flatten_T_def by (intro length_concat_map_upt) simp

lemma roll_props: "length (roll r row) = length row \<and> mset (roll r row) = mset row"
proof -
  have "mset (drop k row @ take k row) = mset row" for k
  proof -
    have "mset (take k row) + mset (drop k row) = mset row"
      by (metis append_take_drop_id mset_append)
    then show ?thesis by (simp add: union_commute)
  qed
  then show ?thesis by (simp add: roll_def Let_def)
qed

lemma roll_odd_rows_props:
  "list_all (\<lambda>row. length row = d) rows \<Longrightarrow>
   list_all (\<lambda>row. length row = d) (roll_odd_rows r rows)
   \<and> length (roll_odd_rows r rows) = length rows
   \<and> mset (concat (roll_odd_rows r rows)) = mset (concat rows)"
  by (induction r rows rule: roll_odd_rows.induct) (simp_all add: roll_props)

lemma concat_rows_take:
  "concat (map (\<lambda>i. take d (drop (i * d) lst)) [0..<m]) = take (m * d) lst"
proof (induction m)
  case 0
  then show ?case by simp
next
  case (Suc m)
  have "take (m * d) lst @ take d (drop (m * d) lst) = take (m * d + d) lst"
    by (simp add: take_add)
  with Suc show ?case by (simp add: add.commute)
qed

lemma reshape_rows_props:
  assumes "0 < d" "d dvd length lst"
  shows "\<exists>rows. reshape_rows d lst = Inr rows \<and> list_all (\<lambda>row. length row = d) rows
           \<and> length rows = length lst div d \<and> concat rows = lst"
proof -
  let ?m = "length lst div d"
  let ?rows = "map (\<lambda>i. take d (drop (i * d) lst)) [0..<?m]"
  have md: "?m * d = length lst" using assms by simp
  have r: "reshape_rows d lst = Inr ?rows" using assms by (simp add: reshape_rows_def)
  have len: "length (take d (drop (i * d) lst)) = d" if "i < ?m" for i
  proof -
    have "i * d + d \<le> ?m * d"
      using that by (metis Suc_leI mult_Suc mult_le_mono1 add.commute)
    then show ?thesis using md by simp
  qed
  then have "list_all (\<lambda>row. length row = d) ?rows" by (simp add: list_all_iff)
  moreover have "concat ?rows = lst" using concat_rows_take [of d lst ?m] md by simp
  ultimately show ?thesis using r by simp
qed

lemma op_props:
  assumes "0 < d" "d dvd length x"
  shows "\<exists>res x'. op x d r = Inr (res, x') \<and> mset res = mset x \<and> mset x' = mset x
           \<and> length res = length x \<and> length x' = length x"
proof -
  from reshape_rows_props [OF assms] obtain rows where
    rows: "reshape_rows d x = Inr rows" "list_all (\<lambda>row. length row = d) rows"
      "length rows = length x div d" "concat rows = x"
    by blast
  let ?rows' = "roll_odd_rows r rows"
  note p = roll_odd_rows_props [OF rows(2), of r]
  have e: "op x d r = Inr (flatten_T d ?rows', concat ?rows')"
    using rows(1) by (simp add: op_def Let_def)
  have m1: "mset (concat ?rows') = mset x" using p rows(4) by simp
  have m2: "mset (flatten_T d ?rows') = mset x" using mset_flatten_T [of d ?rows'] p m1 by simp
  have l1: "length (concat ?rows') = length x" using m1 by (rule mset_eq_length)
  have l2: "length (flatten_T d ?rows') = length x" using m2 by (rule mset_eq_length)
  from e m1 m2 l1 l2 show ?thesis by blast
qed

lemma comps_for_props:
  assumes "0 < d" "d dvd n" "mset x = mset [0..<n]" "list_all (\<lambda>c. mset c = mset [0..<n]) comps"
  shows "\<exists>x' comps'. comps_for d rs x comps = Inr (x', comps') \<and> mset x' = mset [0..<n]
           \<and> list_all (\<lambda>c. mset c = mset [0..<n]) comps'
           \<and> length comps' = length comps + length rs"
  using assms(3,4)
proof (induction rs arbitrary: x comps)
  case Nil
  then show ?case by simp
next
  case (Cons r rs)
  have "length x = n" using mset_eq_length [OF Cons.prems(1)] by simp
  then have "d dvd length x" using assms(2) by simp
  from op_props [OF assms(1) this, of r] obtain res x1 where
    o: "op x d r = Inr (res, x1)" "mset res = mset x" "mset x1 = mset x" by blast
  have x1: "mset x1 = mset [0..<n]" using o(3) Cons.prems(1) by simp
  have c1: "list_all (\<lambda>c. mset c = mset [0..<n]) (comps @ [res])"
    using o(2) Cons.prems by simp
  from Cons.IH [OF x1 c1] obtain x' comps' where
    "comps_for d rs x1 (comps @ [res]) = Inr (x', comps')" "mset x' = mset [0..<n]"
    "list_all (\<lambda>c. mset c = mset [0..<n]) comps'"
    "length comps' = length (comps @ [res]) + length rs"
    by blast
  then show ?case using o(1) by simp
qed

lemma comps_while_props:
  assumes "j \<le> k" "mset x = mset [0..<2 ^ k]" "list_all (\<lambda>c. mset c = mset [0..<2 ^ k]) comps"
  shows "\<exists>comps'. comps_while (2 ^ k) (2 ^ j) x comps = Some (Inr comps')
           \<and> list_all (\<lambda>c. mset c = mset [0..<2 ^ k]) comps'
           \<and> length comps' = length comps + (2 ^ k - 2 ^ j)"
  using assms
proof (induction "k - j" arbitrary: j x comps)
  case 0
  then have "j = k" by simp
  then show ?case using "0.prems"(3) by (subst comps_while.simps) simp
next
  case (Suc m)
  then have jk: "j < k" by simp
  then have lt: "(2::nat) ^ j < 2 ^ k" by simp
  have dvd: "(2::nat) ^ j dvd 2 ^ k" using jk by (simp add: le_imp_power_dvd)
  from comps_for_props [OF _ dvd Suc.prems(2,3), of "[0..<2 ^ j]"] obtain x1 comps1 where
    f: "comps_for (2 ^ j) [0..<2 ^ j] x comps = Inr (x1, comps1)" "mset x1 = mset [0..<2 ^ k]"
      "list_all (\<lambda>c. mset c = mset [0..<2 ^ k]) comps1" "length comps1 = length comps + 2 ^ j"
    by auto
  have m: "m = k - Suc j" using Suc.hyps(2) by simp
  have "Suc j \<le> k" using jk by simp
  from Suc.hyps(1) [OF m this f(2,3)] obtain comps' where
    w: "comps_while (2 ^ k) (2 ^ Suc j) x1 comps1 = Some (Inr comps')"
      "list_all (\<lambda>c. mset c = mset [0..<2 ^ k]) comps'"
      "length comps' = length comps1 + (2 ^ k - 2 ^ Suc j)"
    by blast
  have "(2::nat) ^ Suc j \<le> 2 ^ k" using \<open>Suc j \<le> k\<close> by (rule power_increasing) simp
  then have len: "length comps' = length comps + (2 ^ k - 2 ^ j)" using w(3) f(4) by simp
  have "comps_while (2 ^ k) (2 ^ j) x comps = comps_while (2 ^ k) (2 ^ Suc j) x1 comps1"
    using lt f(1) by (subst comps_while.simps) (simp add: mult.commute)
  with w len show ?case by simp
qed

lemma concat_pairs_take:
  "2 * m \<le> length c \<Longrightarrow>
   concat (map (\<lambda>i. [c ! (2 * i), c ! (2 * i + 1)]) [0..<m]) = take (2 * m) c"
proof (induction m)
  case 0
  then show ?case by simp
next
  case (Suc m)
  then have a: "2 * m < length c" "Suc (2 * m) < length c" by simp_all
  have "take (2 * Suc m) c = take (Suc (Suc (2 * m))) c" by simp
  also have "\<dots> = take (2 * m) c @ [c ! (2 * m), c ! Suc (2 * m)]"
    using a by (simp add: take_Suc_conv_app_nth)
  finally show ?case using Suc by simp
qed

lemma pairs_props:
  assumes "even (length c)"
  shows "length (pairs c) = length c div 2 \<and> list_all (\<lambda>pair. length pair = 2) (pairs c)
       \<and> concat (pairs c) = c"
proof -
  have "2 * (length c div 2) = length c" using assms by simp
  then have "concat (pairs c) = c"
    using concat_pairs_take [of "length c div 2" c] by (simp add: pairs_def)
  then show ?thesis by (simp add: pairs_def list_all_iff)
qed

lemma get_all_comps_not_power:
  "\<not> (\<exists>k. n = 2 ^ k) \<Longrightarrow> get_all_comps n = Some (Inl (ValueError ''n must be a power of two''))"
  using power_of_two_check [of n] by (simp add: get_all_comps_def)

lemma get_all_comps_power:
  assumes "0 < k"
  shows "\<exists>rounds. get_all_comps (2 ^ k) = Some (Inr rounds) \<and> length rounds = 2 ^ k - 1
        \<and> (\<forall>round \<in> set rounds. length round = 2 ^ k div 2
              \<and> (\<forall>pair \<in> set round. length pair = 2)
              \<and> mset (concat round) = mset [0..<2 ^ k])"
proof -
  have chk: "(((2::int) ^ k AND (2 ^ k - 1)) = 0 \<and> (2::int) ^ k \<noteq> 0)"
    using power_of_two_check [of "2 ^ k"] by blast
  have n: "nat ((2::int) ^ k) = 2 ^ k" by (simp add: nat_power_eq)
  from comps_while_props [of 0 k "[0..<2 ^ k]" "[]"] obtain comps where
    w: "comps_while (2 ^ k) 1 [0..<2 ^ k] [] = Some (Inr comps)"
      "list_all (\<lambda>c. mset c = mset [0..<2 ^ k]) comps"
      "length comps = 2 ^ k - 1"
    by auto
  have "(2::nat) ^ k \<ge> 2 ^ 1" using assms by (intro power_increasing) simp_all
  then have ne: "comps \<noteq> []" using w(3) by auto
  have ev: "(2::nat) ^ k mod 2 = 0" using assms by (cases k) simp_all
  have res: "get_all_comps (2 ^ k) = Some (Inr (map pairs comps))"
    unfolding get_all_comps_def n using chk w(1) ne ev by simp
  have rounds: "length round = 2 ^ k div 2 \<and> (\<forall>pair \<in> set round. length pair = 2)
              \<and> mset (concat round) = mset [0..<2 ^ k]" if "round \<in> set (map pairs comps)" for round
  proof -
    from that obtain c where c: "c \<in> set comps" "round = pairs c" by auto
    with w(2) have m: "mset c = mset [0..<2 ^ k]" by (simp add: list_all_iff)
    then have "length c = 2 ^ k" using mset_eq_length [OF m] by simp
    then have "even (length c)" using ev by (simp add: even_iff_mod_2_eq_zero)
    from pairs_props [OF this] c(2) m \<open>length c = 2 ^ k\<close> show ?thesis
      by (simp add: list_all_iff)
  qed
  from res rounds w(3) show ?thesis by simp
qed

lemma get_all_comps_one:
  "get_all_comps 1 = Some (Inl (ValueError ''need at least one array to stack''))"
  by (simp add: get_all_comps_def comps_while.simps)

text \<open>
  C10. \<open>get_all_comps(n)\<close> raises ValueError whenever \<open>n\<close> is zero or not a power of two.
  For every power of two \<open>n = 2^k\<close> with \<open>k \<ge> 1\<close> it returns exactly \<open>n - 1\<close> rounds, each of
  \<open>n / 2\<close> pairs in which every rank of \<open>0..n-1\<close> appears exactly once. For \<open>n = 1\<close>, which
  passes the power-of-two check, the loop collects no round and stacking the empty list
  raises ValueError.
\<close>

theorem get_all_comps_rounds:
  "(\<not> (\<exists>k. n = 2 ^ k) \<longrightarrow>
      get_all_comps n = Some (Inl (ValueError ''n must be a power of two'')))
   \<and> (0 < k \<longrightarrow>
        (\<exists>rounds. get_all_comps (2 ^ k) = Some (Inr rounds) \<and> length rounds = 2 ^ k - 1
          \<and> (\<forall>round \<in> set rounds. length round = 2 ^ k div 2
                \<and> (\<forall>pair \<in> set round. length pair = 2)
                \<and> mset (concat round) = mset [0..<2 ^ k])))
   \<and> get_all_comps 1 = Some (Inl (ValueError ''need at least one array to stack''))"
  using get_all_comps_not_power [of n] get_all_comps_power [of k] get_all_comps_one
  by (intro conjI impI)

theorem get_all_comps_rounds_witness:
  "\<not> (\<exists>k. (6::int) = 2 ^ k)
   \<and> get_all_comps 6 = Some (Inl (ValueError ''n must be a power of two''))
   \<and> (0::nat) < 2
   \<and> (\<exists>rounds. get_all_comps (2 ^ 2) = Some (Inr rounds) \<and> length rounds = 2 ^ 2 - 1)
   \<and> get_all_comps 4 = Some (Inr [[[0, 1], [2, 3]], [[0, 2], [1, 3]], [[0, 3], [1, 2]]])"
proof -
  have a: "\<not> (\<exists>k. (6::int) = 2 ^ k)"
    using power_of_two_check [of 6] by simp
  have b: "get_all_comps 6 = Some (Inl (ValueError ''n must be a power of two''))"
    using get_all_comps_rounds [of 6 2, THEN conjunct1, THEN mp, OF a] .
  have c: "(0::nat) < 2" by simp
  from get_all_comps_rounds [of 6 2, THEN conjunct2, THEN conjunct1, THEN mp, OF c]
  have d: "\<exists>rounds. get_all_comps (2 ^ 2) = Some (Inr rounds) \<and> length rounds = 2 ^ 2 - 1"
    by blast
  have e: "get_all_comps 4 = Some (Inr [[[0, 1], [2, 3]], [[0, 2], [1, 3]], [[0, 3], [1, 2]]])"
    by code_simp
  from a b c d e show ?thesis by (intro conjI)
qed

section \<open>Proofs: the domain sampler\<close>








section \<open>Proofs: the sanity checks on a micro-batch\<close>

lemma dp_checks_passes:
  "dp_checks u xs = Inr () \<longleftrightarrow>
     (\<forall>(key, value) \<in> set xs. \<forall>t. value = Tensor t \<longrightarrow> \<not> contains ''mask'' key \<longrightarrow>
        assert_fail_except_rank_with u 0 DP_PG
          (assert_tensor_synced_across_pg u DP_PG (\<lambda>err. key @ '' '' @ err) t) = Inr ())"
  by (induction u xs rule: dp_checks.induct) (auto split: sum.splits)

lemma tp_checks_passes:
  "tp_checks u xs = Inr () \<longleftrightarrow>
     (\<forall>(key, value) \<in> set xs. \<forall>t. value = Tensor t \<longrightarrow>
        assert_tensor_synced_across_pg u TP_PG
          (\<lambda>err. key @ '' are not synchronized throughout TP '' @ err) t = Inr ())"
  by (induction u xs rule: tp_checks.induct) (auto split: sum.splits)

lemma dp_checks_raises:
  "dp_checks u xs = Inl e \<Longrightarrow>
     \<exists>key t. (key, Tensor t) \<in> set xs \<and> \<not> contains ''mask'' key
       \<and> assert_fail_except_rank_with u 0 DP_PG
            (assert_tensor_synced_across_pg u DP_PG (\<lambda>err. key @ '' '' @ err) t) = Inl e"
  by (induction u xs rule: dp_checks.induct) (auto split: sum.splits if_splits)

lemma tp_checks_raises:
  "tp_checks u xs = Inl e \<Longrightarrow>
     \<exists>key t. (key, Tensor t) \<in> set xs
       \<and> assert_tensor_synced_across_pg u TP_PG
            (\<lambda>err. key @ '' are not synchronized throughout TP '' @ err) t = Inl e"
  by (induction u xs rule: tp_checks.induct) (auto split: sum.splits if_splits)

lemma dp_checks_filter: "dp_checks u (filter holds_tensor xs) = dp_checks u xs"
  by (induction u xs rule: dp_checks.induct) (auto simp: holds_tensor_def split: sum.splits)

lemma tp_checks_filter: "tp_checks u (filter holds_tensor xs) = tp_checks u xs"
  by (induction u xs rule: tp_checks.induct) (auto simp: holds_tensor_def split: sum.splits)

lemma check_disabled: "check_micro_batch u True batch = Inr batch"
  by (simp add: check_micro_batch_def)

lemma check_passes:
  "check_micro_batch u False batch = Inr batch \<longleftrightarrow>
     (\<forall>(key, value) \<in> set batch. \<forall>t. value = Tensor t \<longrightarrow>
        (\<not> contains ''mask'' key \<longrightarrow>
           assert_fail_except_rank_with u 0 DP_PG
             (assert_tensor_synced_across_pg u DP_PG (\<lambda>err. key @ '' '' @ err) t) = Inr ())
        \<and> assert_tensor_synced_across_pg u TP_PG
             (\<lambda>err. key @ '' are not synchronized throughout TP '' @ err) t = Inr ())"
proof -
  have "check_micro_batch u False batch = Inr batch \<longleftrightarrow>
      dp_checks u (sort_key fst batch) = Inr () \<and> tp_checks u (sort_key fst batch) = Inr ()"
    by (auto simp: check_micro_batch_def split: sum.splits)
  then show ?thesis
    unfolding dp_checks_passes tp_checks_passes by (simp only: set_sort) blast
qed

lemma check_raises:
  assumes "check_micro_batch u False batch = Inl e"
  shows "\<exists>key t. (key, Tensor t) \<in> set batch
       \<and> (\<not> contains ''mask'' key
            \<and> assert_fail_except_rank_with u 0 DP_PG
                 (assert_tensor_synced_across_pg u DP_PG (\<lambda>err. key @ '' '' @ err) t) = Inl e
          \<or> assert_tensor_synced_across_pg u TP_PG
               (\<lambda>err. key @ '' are not synchronized throughout TP '' @ err) t = Inl e)"
proof (cases "dp_checks u (sort_key fst batch)")
  case (Inl e')
  with assms have "e' = e" by (simp add: check_micro_batch_def)
  with Inl dp_checks_raises [of u "sort_key fst batch" e] show ?thesis by auto
next
  case (Inr x)
  with assms have "tp_checks u (sort_key fst batch) = Inl e"
    by (simp add: check_micro_batch_def split: sum.splits)
  with tp_checks_raises [of u "sort_key fst batch" e] show ?thesis by auto
qed

lemma check_ignores_placeholders:
  "check_micro_batch u ig (filter holds_tensor batch) = Inl e \<longleftrightarrow> check_micro_batch u ig batch = Inl e"
proof -
  have "sort_key fst (filter holds_tensor batch) = filter holds_tensor (sort_key fst batch)"
    by (simp add: filter_sort)
  then show ?thesis
    by (simp add: check_micro_batch_def dp_checks_filter tp_checks_filter split: sum.splits)
qed

lemma wrapper_model_passes:
  "assert_fail_except_rank_with_model get_rank 0 pg body = Inr () \<longleftrightarrow>
     (if get_rank pg = 0 then body = Inr () else (\<exists>m. body = Inl (AssertionError m)))"
  by (auto simp: assert_fail_except_rank_with_model_def split: sum.splits error.splits)

lemma dp_model_passes:
  "assert_fail_except_rank_with (utils_model get_rank reference) 0 DP_PG
     (assert_tensor_synced_across_pg (utils_model get_rank reference) DP_PG msg t) = Inr ()
   \<longleftrightarrow> (get_rank DP_PG = 0 \<or> reference DP_PG t \<noteq> t)"
  by (auto simp: utils_model_def assert_fail_except_rank_with_model_def
      assert_tensor_synced_across_pg_model_def Let_def)

lemma tp_model_passes:
  "assert_tensor_synced_across_pg (utils_model get_rank reference) TP_PG msg t = Inr ()
   \<longleftrightarrow> (get_rank TP_PG = 0 \<or> reference TP_PG t = t)"
  by (auto simp: utils_model_def assert_tensor_synced_across_pg_model_def Let_def)

lemma tp_model_raises:
  "assert_tensor_synced_across_pg (utils_model get_rank reference) TP_PG msg t = Inl e
   \<Longrightarrow> e = AssertionError (msg ''Tensor-likes are not equal'')"
  by (auto simp: utils_model_def assert_tensor_synced_across_pg_model_def Let_def split: if_splits)

text \<open>
  C4 (as amended). With sanity checks disabled nothing is checked and the micro-batch is
  yielded. With them enabled the micro-batch is yielded exactly when, for every field
  holding a tensor, the synchronisation assertion on the tensor-parallel group passes
  and, unless the field's name contains "mask", the same assertion on the data-parallel
  group passes the context manager \<open>assert_fail_except_rank_with(AssertionError,
  rank_exception=0)\<close>; an exception raised is the one of such a check on a field holding a
  tensor, and placeholder fields are never checked. With the two helpers as modelled, the
  data-parallel check passes on rank 0 and, on every other rank, exactly when the tensor
  differs from the one of rank 0; the tensor-parallel check passes exactly when the tensor
  equals the one of rank 0, and its failure carries the message built from the field name.
\<close>

theorem sanity_checks_per_field:
  "check_micro_batch u True batch = Inr batch
   \<and> (check_micro_batch u False batch = Inr batch \<longleftrightarrow>
       (\<forall>(key, value) \<in> set batch. \<forall>t. value = Tensor t \<longrightarrow>
          (\<not> contains ''mask'' key \<longrightarrow>
             assert_fail_except_rank_with u 0 DP_PG
               (assert_tensor_synced_across_pg u DP_PG (\<lambda>err. key @ '' '' @ err) t) = Inr ())
          \<and> assert_tensor_synced_across_pg u TP_PG
               (\<lambda>err. key @ '' are not synchronized throughout TP '' @ err) t = Inr ()))
   \<and> (check_micro_batch u False batch = Inl e \<longrightarrow>
       (\<exists>key t. (key, Tensor t) \<in> set batch
          \<and> (\<not> contains ''mask'' key
               \<and> assert_fail_except_rank_with u 0 DP_PG
                    (assert_tensor_synced_across_pg u DP_PG (\<lambda>err. key @ '' '' @ err) t) = Inl e
             \<or> assert_tensor_synced_across_pg u TP_PG
                  (\<lambda>err. key @ '' are not synchronized throughout TP '' @ err) t = Inl e)))
   \<and> (check_micro_batch u ig (filter holds_tensor batch) = Inl e
        \<longleftrightarrow> check_micro_batch u ig batch = Inl e)
   \<and> (assert_fail_except_rank_with (utils_model get_rank reference) 0 DP_PG
         (assert_tensor_synced_across_pg (utils_model get_rank reference) DP_PG msg t') = Inr ()
        \<longleftrightarrow> (get_rank DP_PG = 0 \<or> reference DP_PG t' \<noteq> t'))
   \<and> (assert_tensor_synced_across_pg (utils_model get_rank reference) TP_PG msg t' = Inr ()
        \<longleftrightarrow> (get_rank TP_PG = 0 \<or> reference TP_PG t' = t'))
   \<and> (assert_tensor_synced_across_pg (utils_model get_rank reference) TP_PG msg t' = Inl e'
        \<longrightarrow> e' = AssertionError (msg ''Tensor-likes are not equal''))"
proof (intro conjI)
  show "check_micro_batch u True batch = Inr batch" by (rule check_disabled)
  show "check_micro_batch u False batch = Inr batch \<longleftrightarrow>
       (\<forall>(key, value) \<in> set batch. \<forall>t. value = Tensor t \<longrightarrow>
          (\<not> contains ''mask'' key \<longrightarrow>
             assert_fail_except_rank_with u 0 DP_PG
               (assert_tensor_synced_across_pg u DP_PG (\<lambda>err. key @ '' '' @ err) t) = Inr ())
          \<and> assert_tensor_synced_across_pg u TP_PG
               (\<lambda>err. key @ '' are not synchronized throughout TP '' @ err) t = Inr ())"
    by (rule check_passes)
  show "check_micro_batch u False batch = Inl e \<longrightarrow>
       (\<exists>key t. (key, Tensor t) \<in> set batch
          \<and> (\<not> contains ''mask'' key
               \<and> assert_fail_except_rank_with u 0 DP_PG
                    (assert_tensor_synced_across_pg u DP_PG (\<lambda>err. key @ '' '' @ err) t) = Inl e
             \<or> assert_tensor_synced_across_pg u TP_PG
                  (\<lambda>err. key @ '' are not synchronized throughout TP '' @ err) t = Inl e))"
    using check_raises [of u batch e] by blast
  show "check_micro_batch u ig (filter holds_tensor batch) = Inl e
        \<longleftrightarrow> check_micro_batch u ig batch = Inl e"
    by (rule check_ignores_placeholders)
  show "assert_fail_except_rank_with (utils_model get_rank reference) 0 DP_PG
         (assert_tensor_synced_across_pg (utils_model get_rank reference) DP_PG msg t') = Inr ()
        \<longleftrightarrow> (get_rank DP_PG = 0 \<or> reference DP_PG t' \<noteq> t')"
    by (rule dp_model_passes)
  show "assert_tensor_synced_across_pg (utils_model get_rank reference) TP_PG msg t' = Inr ()
        \<longleftrightarrow> (get_rank TP_PG = 0 \<or> reference TP_PG t' = t')"
    by (rule tp_model_passes)
  show "assert_tensor_synced_across_pg (utils_model get_rank reference) TP_PG msg t' = Inl e'
        \<longrightarrow> e' = AssertionError (msg ''Tensor-likes are not equal'')"
    using tp_model_raises [of get_rank reference msg t' e'] by blast
qed

text \<open>
  The claim as stated fails: a field that is bit-identical across the data-parallel group
  makes the check raise on rank 1, and one that differs there passes.
\<close>

theorem sanity_check_dp_counterexample:
  "check_micro_batch (utils_model rank_one same_everywhere) False [(''input_ids'', Tensor [1, 2, 3])]
     = Inl (AssertionError ''Expected AssertionError to be raised.'')
   \<and> same_everywhere DP_PG [1, 2, 3] = [1, 2, 3]
   \<and> check_micro_batch (utils_model rank_one differs_on_dp) False [(''input_ids'', Tensor [1, 2, 3])]
     = Inr [(''input_ids'', Tensor [1, 2, 3])]
   \<and> differs_on_dp DP_PG [1, 2, 3] \<noteq> [1, 2, 3]"
  by code_simp

theorem sanity_checks_per_field_witness:
  "check_micro_batch (utils_model rank_one differs_on_dp) False
        [(''input_ids'', Tensor [1, 2, 3]), (''input_mask'', Tensor [1, 1, 1]),
         (''label_ids'', TensorPointer 3)]
      = Inr [(''input_ids'', Tensor [1, 2, 3]), (''input_mask'', Tensor [1, 1, 1]),
             (''label_ids'', TensorPointer 3)]
   \<and> check_micro_batch (utils_model rank_one same_everywhere) False
        [(''input_ids'', Tensor [1, 2, 3])]
      = Inl (AssertionError ''Expected AssertionError to be raised.'')
   \<and> (\<exists>key t. (key, Tensor t) \<in> set [(''input_ids'', Tensor [1, 2, 3 :: nat])]
         \<and> \<not> contains ''mask'' key)"
proof -
  let ?u = "utils_model rank_one differs_on_dp"
  let ?v = "utils_model rank_one same_everywhere"
  let ?batch = "[(''input_ids'', Tensor [1, 2, 3]), (''input_mask'', Tensor [1, 1, 1]),
                 (''label_ids'', TensorPointer 3)]"
  have m1: "contains ''mask'' ''input_mask''" by code_simp
  have m2: "\<not> contains ''mask'' ''input_ids''" by code_simp
  note t = sanity_checks_per_field [of ?u ?batch _ _ rank_one differs_on_dp]
  have dp: "assert_fail_except_rank_with ?u 0 DP_PG
             (assert_tensor_synced_across_pg ?u DP_PG msg [1, 2, 3]) = Inr ()" for msg
    using sanity_checks_per_field [of ?u ?batch _ _ rank_one differs_on_dp msg "[1, 2, 3]"]
    by (simp add: differs_on_dp_def)
  have tp: "assert_tensor_synced_across_pg ?u TP_PG msg t = Inr ()" for msg t
    using sanity_checks_per_field [of ?u ?batch _ _ rank_one differs_on_dp msg t]
    by (simp add: differs_on_dp_def)
  have h: "\<forall>(key, value) \<in> set ?batch. \<forall>t. value = Tensor t \<longrightarrow>
        (\<not> contains ''mask'' key \<longrightarrow>
           assert_fail_except_rank_with ?u 0 DP_PG
             (assert_tensor_synced_across_pg ?u DP_PG (\<lambda>err. key @ '' '' @ err) t) = Inr ())
        \<and> assert_tensor_synced_across_pg ?u TP_PG
             (\<lambda>err. key @ '' are not synchronized throughout TP '' @ err) t = Inr ()"
    using m1 dp tp by simp
  have ok: "check_micro_batch ?u False ?batch = Inr ?batch"
    using t [THEN conjunct2, THEN conjunct1, THEN iffD2, OF h] .
  have bad: "check_micro_batch ?v False [(''input_ids'', Tensor [1, 2, 3])]
      = Inl (AssertionError ''Expected AssertionError to be raised.'')"
    by code_simp
  from sanity_checks_per_field [of ?v "[(''input_ids'', Tensor [1, 2, 3])]"
      "AssertionError ''Expected AssertionError to be raised.''",
      THEN conjunct2, THEN conjunct2, THEN conjunct1, THEN mp, OF bad] m2
  have ex: "\<exists>key t. (key, Tensor t) \<in> set [(''input_ids'', Tensor [1, 2, 3 :: nat])]
         \<and> \<not> contains ''mask'' key"
    by auto
  from ok bad ex show ?thesis by (intro conjI)
qed

end
